theory Spec2Isabelle
  imports Complex_Main "HOL-Library.Char_ord" "HOL-Library.List_Lexorder" "HOL-Library.FSet"
begin

section \<open>Data model\<close>

text \<open>
  The exceptions the modelled Python code can raise. \<open>max\<close> of an empty sequence raises
  ValueError, arithmetic on \<open>None\<close> raises TypeError, \<open>xs[0]\<close> on an empty list raises
  IndexError, \<open>x % 0\<close> raises ZeroDivisionError, a missing dictionary key raises KeyError,
  the conversion of an integer beyond the range of floats raises OverflowError.
\<close>

datatype py_error = ValueError | TypeError | IndexError | ZeroDivisionError | KeyError
  | OverflowError

text \<open>
  Load metrics are Python floats where \<open>-inf\<close> (and \<open>inf\<close>) are ordinary values.
  A load is modelled as an extended real; the finite part is a real number, so rounding is
  not modelled. The difference of two loads is a float again, and it is NaN when both are
  the same infinity: differences have type \<open>load option\<close> with \<open>None\<close> for NaN.
\<close>

datatype load = NegInf | Fin real | PosInf

fun load_le :: "load \<Rightarrow> load \<Rightarrow> bool" where
  "load_le NegInf _ = True"
| "load_le (Fin a) NegInf = False"
| "load_le (Fin a) (Fin b) = (a \<le> b)"
| "load_le (Fin a) PosInf = True"
| "load_le PosInf PosInf = True"
| "load_le PosInf _ = False"

instantiation load :: linorder
begin

definition less_eq_load :: "load \<Rightarrow> load \<Rightarrow> bool" where
  "less_eq_load a b = load_le a b"

definition less_load :: "load \<Rightarrow> load \<Rightarrow> bool" where
  "less_load a b = (load_le a b \<and> \<not> load_le b a)"

instance
proof
  fix x y z :: load
  show "(x < y) = (x \<le> y \<and> \<not> y \<le> x)"
    by (simp add: less_load_def less_eq_load_def)
  show "x \<le> x"
    by (cases x) (simp_all add: less_eq_load_def)
  show "x \<le> y \<Longrightarrow> y \<le> z \<Longrightarrow> x \<le> z"
    by (cases x; cases y; cases z) (simp_all add: less_eq_load_def)
  show "x \<le> y \<Longrightarrow> y \<le> x \<Longrightarrow> x = y"
    by (cases x; cases y) (simp_all add: less_eq_load_def)
  show "x \<le> y \<or> y \<le> x"
    by (cases x; cases y) (auto simp add: less_eq_load_def)
qed

end

text \<open>Float subtraction \<open>a - b\<close>; \<open>None\<close> is NaN.\<close>

fun fsub :: "load \<Rightarrow> load \<Rightarrow> load option" where
  "fsub (Fin a) (Fin b) = Some (Fin (a - b))"
| "fsub (Fin a) NegInf = Some PosInf"
| "fsub (Fin a) PosInf = Some NegInf"
| "fsub NegInf NegInf = None"
| "fsub NegInf _ = Some NegInf"
| "fsub PosInf PosInf = None"
| "fsub PosInf _ = Some PosInf"

text \<open>Float comparison \<open>a < b\<close>: false as soon as one side is NaN.\<close>

fun flt :: "load option \<Rightarrow> load option \<Rightarrow> bool" where
  "flt (Some a) (Some b) = (a < b)"
| "flt _ _ = False"

text \<open>
  InstanceInfo, the telemetry snapshot of one worker (the class itself is imported from
  \<open>llumnix.instance_info\<close>; the fields are those the three source files read). Block and
  request counts are Python integers.
\<close>

record InstanceInfo =
  instance_id :: string
  num_total_gpu_blocks :: int
  num_used_gpu_blocks :: int
  num_free_gpu_blocks :: int
  num_watermark_blocks :: int
  num_waiting_requests :: int
  num_running_requests :: int
  migration_load_metric :: load
  migration_load_metric_after_migrate_out :: load
  migration_load_metric_after_migrate_in :: load

text \<open>A request, as far as the scheduler reads it: \<open>request_id\<close> and \<open>n_blocks\<close>.\<close>

record Request =
  request_id :: string
  n_blocks :: int

text \<open>
  Python's \<open>sorted(xs, key=k, reverse=r)\<close>. The sort is stable; with \<open>reverse=True\<close>
  CPython reverses the list, sorts it ascending and reverses the result, which keeps
  elements with equal keys in their input order.
\<close>

definition py_sorted :: "('a \<Rightarrow> 'k::linorder) \<Rightarrow> bool \<Rightarrow> 'a list \<Rightarrow> 'a list" where
  "py_sorted key reverse xs =
     (if reverse then rev (sort_key key (rev xs)) else sort_key key xs)"

text \<open>Python's \<open>xs[0]\<close>.\<close>

definition first_item :: "'a list \<Rightarrow> py_error + 'a" where
  "first_item xs = (case xs of [] \<Rightarrow> Inl IndexError | x # _ \<Rightarrow> Inr x)"

text \<open>Python's \<open>max(xs)\<close> on a list of integers.\<close>

definition py_max :: "int list \<Rightarrow> py_error + int" where
  "py_max xs = (case xs of [] \<Rightarrow> Inl ValueError | x # ys \<Rightarrow> Inr (fold max ys x))"

text \<open>
  Python's \<open>min(xs, key=k)\<close>: the first element whose key is minimal. \<open>min_key_from\<close>
  is the scan with the best element so far.
\<close>

fun min_key_from :: "('a \<Rightarrow> 'k::linorder) \<Rightarrow> 'a \<Rightarrow> 'a list \<Rightarrow> 'a" where
  "min_key_from key best [] = best"
| "min_key_from key best (x # xs) =
     (if key x < key best then min_key_from key x xs else min_key_from key best xs)"

definition py_min_key :: "('a \<Rightarrow> 'k::linorder) \<Rightarrow> 'a list \<Rightarrow> py_error + 'a" where
  "py_min_key key xs = (case xs of [] \<Rightarrow> Inl ValueError | x # ys \<Rightarrow> Inr (min_key_from key x ys))"

section \<open>dispatch\_policy: Loadv2 and RoundRobin\<close>

text \<open>
  \<open>Loadv2.dispatch\<close>. The arguments \<open>instance_num_requests\<close> and \<open>topk_random_dispatch\<close>
  are not read by this policy and are left out; the logging statements are left out as
  well. \<open>req_n_blocks\<close> defaults to \<open>None\<close> in the source, hence the option.
\<close>

definition loadv2_slack :: "int \<Rightarrow> int \<Rightarrow> InstanceInfo \<Rightarrow> int" where
  "loadv2_slack max_used_blocks req_n_blocks x =
     max_used_blocks - num_watermark_blocks x - num_used_gpu_blocks x - req_n_blocks"

definition loadv2_overshoot :: "int \<Rightarrow> int \<Rightarrow> InstanceInfo \<Rightarrow> int" where
  "loadv2_overshoot max_used_blocks req_n_blocks x =
     num_used_gpu_blocks x + req_n_blocks + num_watermark_blocks x - max_used_blocks"

definition Loadv2_dispatch :: "InstanceInfo list \<Rightarrow> int option \<Rightarrow> py_error + string" where
  "Loadv2_dispatch available_instance_infos req_n_blocks =
     (case py_max (map num_used_gpu_blocks available_instance_infos) of
        Inl e \<Rightarrow> Inl e
      | Inr max_used_blocks \<Rightarrow>
          let filtered_dst_instance_infos =
                filter (\<lambda>x. num_waiting_requests x = 0) available_instance_infos
          in
          if length filtered_dst_instance_infos = length available_instance_infos then
            (case req_n_blocks of
               None \<Rightarrow> Inl TypeError
             | Some n \<Rightarrow>
                 let filtered_dst_instance_infos_II =
                       filter (\<lambda>x. loadv2_slack max_used_blocks n x \<ge> 0) available_instance_infos
                 in
                 if length filtered_dst_instance_infos_II > 0 then
                   map_sum id instance_id
                     (first_item (py_sorted (loadv2_slack max_used_blocks n) False
                                    filtered_dst_instance_infos_II))
                 else
                   map_sum id instance_id
                     (first_item (py_sorted (loadv2_overshoot max_used_blocks n) False
                                    available_instance_infos)))
          else
            map_sum id instance_id
              (first_item (py_sorted num_waiting_requests True available_instance_infos)))"

text \<open>
  \<open>RoundRobin\<close>: the policy object holds the cursor \<open>prev_instance_idx\<close>, \<open>-1\<close> on a fresh
  object. \<open>dispatch\<close> reads only the keys of \<open>instance_num_requests\<close> (a dictionary, so
  the keys are distinct); they are given as a list. Python orders strings
  lexicographically by code point, which is the order of \<open>string\<close> here. With no key,
  \<open>% len(all_instance_ids)\<close> raises ZeroDivisionError before the cursor is written.
\<close>

record RoundRobin =
  prev_instance_idx :: int

definition RoundRobin_new :: RoundRobin where
  "RoundRobin_new = \<lparr>prev_instance_idx = -1\<rparr>"

definition RoundRobin_dispatch :: "string list \<Rightarrow> RoundRobin \<Rightarrow> (py_error + string) \<times> RoundRobin" where
  "RoundRobin_dispatch instance_num_requests_keys self =
     (let all_instance_ids = sort instance_num_requests_keys in
      if length all_instance_ids = 0 then (Inl ZeroDivisionError, self)
      else
        let cur_instance_idx = (prev_instance_idx self + 1) mod int (length all_instance_ids);
            target_instance_id = all_instance_ids ! nat cur_instance_idx
        in (Inr target_instance_id, self\<lparr>prev_instance_idx := cur_instance_idx\<rparr>))"

text \<open>\<open>k\<close> successive calls to \<open>dispatch\<close> on the same policy object, results in call order.\<close>

fun RoundRobin_calls :: "string list \<Rightarrow> nat \<Rightarrow> RoundRobin \<Rightarrow> (py_error + string) list" where
  "RoundRobin_calls keys 0 self = []"
| "RoundRobin_calls keys (Suc k) self =
     (case RoundRobin_dispatch keys self of (r, self') \<Rightarrow> r # RoundRobin_calls keys k self')"

section \<open>migration\_policy: Urgency and Balanced\<close>

text \<open>
  \<open>Urgency.get_src_instances\<close>; \<open>None\<close> is Python's \<open>None\<close>.
\<close>

definition get_src_instances :: "InstanceInfo list \<Rightarrow> string list option" where
  "get_src_instances src_instance_infos =
     (let filtered_src_instance_infos =
            filter (\<lambda>x. num_waiting_requests x > 0) src_instance_infos
      in
      if length filtered_src_instance_infos \<noteq> 0 then
        let sorted_src_instance_infos = py_sorted num_waiting_requests True src_instance_infos
        in Some (map instance_id sorted_src_instance_infos)
      else None)"

text \<open>
  Python's \<open>sorted(xs, key=k, reverse=r)\<close> for a key function that can raise: the
  keys of all elements are computed first, in list order, and the first exception
  ends the call; then the elements are sorted by their keys, stably as in \<open>py_sorted\<close>.
\<close>

fun keys_of :: "('a \<Rightarrow> py_error + 'k) \<Rightarrow> 'a list \<Rightarrow> py_error + ('k \<times> 'a) list" where
  "keys_of key [] = Inr []"
| "keys_of key (x # xs) =
     (case key x of
        Inl e \<Rightarrow> Inl e
      | Inr k \<Rightarrow> (case keys_of key xs of Inl e \<Rightarrow> Inl e | Inr ks \<Rightarrow> Inr ((k, x) # ks)))"

definition py_sorted_raising ::
  "('a \<Rightarrow> py_error + 'k::linorder) \<Rightarrow> bool \<Rightarrow> 'a list \<Rightarrow> py_error + 'a list" where
  "py_sorted_raising key reverse xs =
     (case keys_of key xs of
        Inl e \<Rightarrow> Inl e
      | Inr ks \<Rightarrow> Inr (map snd (py_sorted fst reverse ks)))"

text \<open>
  \<open>Urgency.get_dst_instance\<close>; the logging statements are left out. The sort key
  \<open>x.num_free_gpu_blocks / (x.num_running_requests + 1e-5)\<close> is float arithmetic on
  two integers. It is the parameter \<open>float_ratio\<close>: \<open>float_ratio free running\<close> is the
  float that Python computes for \<open>free / (running + 1e-5)\<close>, or OverflowError when an
  integer is beyond the range of floats (the divisor is an integer plus \<open>1e-5\<close> and
  never zero, and the quotient is never NaN). Floats without NaN are linearly ordered,
  so the values of \<open>float_ratio\<close> are of any linearly ordered type.
\<close>

definition get_dst_instance ::
  "(int \<Rightarrow> int \<Rightarrow> py_error + 'k::linorder) \<Rightarrow> InstanceInfo list \<Rightarrow> string \<Rightarrow> Request
     \<Rightarrow> py_error + string option" where
  "get_dst_instance float_ratio dst_instance_infos src_instance_id target_request =
     (let req_n_blocks = n_blocks target_request;
          filtered_dst_instance_infos =
            filter (\<lambda>x. num_free_gpu_blocks x - num_watermark_blocks x - req_n_blocks > 0)
              dst_instance_infos
      in
      if length filtered_dst_instance_infos \<noteq> 0 then
        (case py_sorted_raising
                (\<lambda>x. float_ratio (num_free_gpu_blocks x) (num_running_requests x)) True
                filtered_dst_instance_infos of
           Inl e \<Rightarrow> Inl e
         | Inr sorted_instance_infos \<Rightarrow>
             (case first_item sorted_instance_infos of
                Inl e \<Rightarrow> Inl e
              | Inr head \<Rightarrow>
                  let target_dst = instance_id head in
                  if target_dst = src_instance_id then Inr None else Inr (Some target_dst)))
      else Inr None)"

text \<open>
  \<open>PairMigrationPolicy.sort_instance_infos\<close> and \<open>Balanced.pair_migration\<close>. The loop
  \<open>for i in range(min(len(src), len(dst)))\<close> reads the two sorted lists at the same
  index, which is a walk over their \<open>zip\<close>.
\<close>

definition sort_instance_infos :: "InstanceInfo list \<Rightarrow> bool \<Rightarrow> InstanceInfo list" where
  "sort_instance_infos instance_infos descending =
     py_sorted migration_load_metric descending instance_infos"

fun balanced_pairs :: "load \<Rightarrow> (InstanceInfo \<times> InstanceInfo) list \<Rightarrow> (string \<times> string) list" where
  "balanced_pairs migrate_out_load_threshold [] = []"
| "balanced_pairs migrate_out_load_threshold ((src, dst) # rest) =
     (let load_diff_before_mig = fsub (migration_load_metric src) (migration_load_metric dst);
          left_load_after_mig = migration_load_metric_after_migrate_out src;
          right_load_after_mig = migration_load_metric_after_migrate_in dst
      in
      if right_load_after_mig > migrate_out_load_threshold then
        balanced_pairs migrate_out_load_threshold rest
      else
        let load_diff_after_mig = fsub left_load_after_mig right_load_after_mig in
        if (flt (Some (Fin 0)) load_diff_after_mig \<and> flt load_diff_after_mig load_diff_before_mig)
           \<or> migration_load_metric dst = NegInf
        then (instance_id src, instance_id dst) # balanced_pairs migrate_out_load_threshold rest
        else balanced_pairs migrate_out_load_threshold rest)"

definition Balanced_pair_migration ::
  "load \<Rightarrow> InstanceInfo list \<Rightarrow> InstanceInfo list \<Rightarrow> (string \<times> string) list" where
  "Balanced_pair_migration migrate_out_load_threshold src_instance_infos dst_instance_infos =
     (let sorted_src_instance_infos = sort_instance_infos src_instance_infos True;
          sorted_dst_instance_infos = sort_instance_infos dst_instance_infos False
      in balanced_pairs migrate_out_load_threshold
           (zip sorted_src_instance_infos sorted_dst_instance_infos))"

section \<open>global\_scheduler: the redispatch planner and membership\<close>

text \<open>
  \<open>candidate_instances\<close> is a dictionary \<open>instance_id -> [free_blocks, num_used_blocks]\<close>.
  Its iteration order decides ties, so it is an association list in insertion order
  (a dictionary has each key once). \<open>cand_free c i\<close> is \<open>candidate_instances[i][0]\<close> and
  \<open>cand_used c i\<close> is \<open>candidate_instances[i][1]\<close>. The planner only looks up ids it has
  taken from the keys of \<open>candidate_instances\<close> (lemma \<open>available_ids_keys\<close>), so the
  lookup never raises KeyError and the value given to an absent key is never read.
\<close>

type_synonym candidates = "(string \<times> int \<times> int) list"

definition cand_free :: "candidates \<Rightarrow> string \<Rightarrow> int" where
  "cand_free c i = (case map_of c i of Some (free_blocks, used_blocks) \<Rightarrow> free_blocks | None \<Rightarrow> 0)"

definition cand_used :: "candidates \<Rightarrow> string \<Rightarrow> int" where
  "cand_used c i = (case map_of c i of Some (free_blocks, used_blocks) \<Rightarrow> used_blocks | None \<Rightarrow> 0)"

text \<open>\<open>[instance_id for instance_id, (free_blocks, _) in candidate_instances.items() if free_blocks > 0]\<close>\<close>

definition available_ids :: "candidates \<Rightarrow> string list" where
  "available_ids c = map fst (filter (\<lambda>(i, free_blocks, used_blocks). free_blocks > 0) c)"

text \<open>
  \<open>candidate_instances[target][0] -= n; candidate_instances[target][1] += n\<close>
\<close>

definition cand_commit :: "candidates \<Rightarrow> string \<Rightarrow> int \<Rightarrow> candidates" where
  "cand_commit c target n =
     map (\<lambda>(i, free_blocks, used_blocks).
            if i = target then (i, free_blocks - n, used_blocks + n)
            else (i, free_blocks, used_blocks)) c"

text \<open>
  \<open>redispatch_plans\<close> is a dictionary \<open>dst_instance_id -> [request, ...]\<close>, again in
  insertion order. \<open>plans_append\<close> is
  \<open>if k not in plans: plans[k] = []\<close> followed by \<open>plans[k].append(request)\<close>.
\<close>

type_synonym plans = "(string \<times> Request list) list"

definition plans_append :: "plans \<Rightarrow> string \<Rightarrow> Request \<Rightarrow> plans" where
  "plans_append redispatch_plans k r =
     (let with_key = (if map_of redispatch_plans k = None then redispatch_plans @ [(k, [])]
                      else redispatch_plans)
      in map (\<lambda>(k', rs). if k' = k then (k', rs @ [r]) else (k', rs)) with_key)"

text \<open>
  The choice of the destination inside one loop iteration of
  \<open>derive_redispatching_plans\<close>: \<open>Inr None\<close> is the \<open>break\<close> taken when no available
  instance can hold the request.
\<close>

definition filtered_dst_instances :: "string list \<Rightarrow> candidates \<Rightarrow> Request \<Rightarrow> string list" where
  "filtered_dst_instances available_instance_ids c request =
     filter (\<lambda>i. cand_free c i - n_blocks request > 0) available_instance_ids"

definition filtered_dst_instances_II :: "int \<Rightarrow> string list \<Rightarrow> candidates \<Rightarrow> Request \<Rightarrow> string list" where
  "filtered_dst_instances_II max_used_blocks available_instance_ids c request =
     filter (\<lambda>i. max_used_blocks - cand_used c i - n_blocks request > 0) available_instance_ids"

definition choose_dst :: "string list \<Rightarrow> candidates \<Rightarrow> Request \<Rightarrow> py_error + string option" where
  "choose_dst available_instance_ids c request =
     (case py_max (map (cand_used c) available_instance_ids) of
        Inl e \<Rightarrow> Inl e
      | Inr max_used_blocks \<Rightarrow>
          if length (filtered_dst_instances available_instance_ids c request) = 0 then Inr None
          else if length (filtered_dst_instances_II max_used_blocks available_instance_ids c request) \<noteq> 0
          then map_sum id Some
                 (py_min_key (\<lambda>i. max_used_blocks - (cand_used c i + n_blocks request))
                    (filtered_dst_instances_II max_used_blocks available_instance_ids c request))
          else map_sum id Some
                 (py_min_key (\<lambda>i. cand_used c i + n_blocks request - max_used_blocks)
                    (filtered_dst_instances available_instance_ids c request)))"

text \<open>
  The state of the planner's loop, and one iteration of its body. An iteration ends the
  loop (\<open>Break\<close>) when the request cannot be placed, and also when no instance has free
  blocks left after the placement (the "check again" at the end of the body).
\<close>

record plan_state =
  available_instance_ids :: "string list"
  candidate_instances :: candidates
  redispatch_plans :: plans

datatype loop_exit = Break plan_state | Continue plan_state

definition plan_iteration :: "string \<Rightarrow> Request \<Rightarrow> plan_state \<Rightarrow> py_error + loop_exit" where
  "plan_iteration master_instance_id request st =
     (case choose_dst (available_instance_ids st) (candidate_instances st) request of
        Inl e \<Rightarrow> Inl e
      | Inr None \<Rightarrow> Inr (Break st)
      | Inr (Some target_dst_instance_id) \<Rightarrow>
          let plans' = (if target_dst_instance_id \<noteq> master_instance_id
                        then plans_append (redispatch_plans st) target_dst_instance_id request
                        else redispatch_plans st);
              c' = cand_commit (candidate_instances st) target_dst_instance_id (n_blocks request);
              st' = \<lparr>available_instance_ids = available_ids c',
                     candidate_instances = c',
                     redispatch_plans = plans'\<rparr>
          in if length (available_ids c') = 0 then Inr (Break st') else Inr (Continue st'))"

fun plan_loop :: "string \<Rightarrow> Request list \<Rightarrow> plan_state \<Rightarrow> py_error + plan_state" where
  "plan_loop master_instance_id [] st = Inr st"
| "plan_loop master_instance_id (request # rest) st =
     (case plan_iteration master_instance_id request st of
        Inl e \<Rightarrow> Inl e
      | Inr (Break st') \<Rightarrow> Inr st'
      | Inr (Continue st') \<Rightarrow> plan_loop master_instance_id rest st')"

definition post_process :: "Request list \<Rightarrow> string set" where
  "post_process target_requests = set (map request_id target_requests)"

text \<open>
  \<open>derive_redispatching_plans\<close> returns the plans; it also updates the caller's
  \<open>candidate_instances\<close> in place, so the model returns both.
\<close>

definition derive_redispatching_plans ::
  "string \<Rightarrow> Request list \<Rightarrow> candidates \<Rightarrow> py_error + (string \<times> string set) list \<times> candidates" where
  "derive_redispatching_plans master_instance_id global_waiting_requests c =
     (if length (available_ids c) = 0 then Inr ([], c)
      else
        (case plan_loop master_instance_id global_waiting_requests
                \<lparr>available_instance_ids = available_ids c, candidate_instances = c,
                 redispatch_plans = []\<rparr> of
           Inl e \<Rightarrow> Inl e
         | Inr st \<Rightarrow>
             Inr (map (\<lambda>(dst, rs). (dst, post_process rs)) (redispatch_plans st),
                  candidate_instances st)))"

text \<open>
  The state of \<open>GlobalScheduler\<close>. The three sub-schedulers (dispatch, migration,
  scaling) are classes of other modules; their state is the field \<open>schedulers\<close> of an
  arbitrary type.
\<close>

record 'sch GlobalScheduler =
  num_instances :: int
  instance_id_set :: "string fset"
  instance_info :: "string \<rightharpoonup> InstanceInfo"
  schedulers :: 'sch

text \<open>\<open>GlobalScheduler.__init__\<close>, given the state of the freshly built sub-schedulers.\<close>

definition GlobalScheduler_new :: "'sch \<Rightarrow> 'sch GlobalScheduler" where
  "GlobalScheduler_new sch =
     \<lparr>num_instances = 0, instance_id_set = {||}, instance_info = Map.empty, schedulers = sch\<rparr>"

definition update_instance_infos :: "InstanceInfo list \<Rightarrow> 'sch GlobalScheduler \<Rightarrow> 'sch GlobalScheduler" where
  "update_instance_infos instance_infos self =
     fold (\<lambda>info s.
             if instance_id info |\<in>| instance_id_set s
             then s\<lparr>instance_info := (instance_info s)(instance_id info \<mapsto> info)\<rparr>
             else s)
          instance_infos self"

text \<open>
  \<open>scale_up\<close> and \<open>_add_instance\<close>. The argument \<open>instance_id\<close> is one string or an
  iterable of strings. Two operations of the sub-schedulers are parameters:
  \<open>get_empty_instance_info\<close> (of the scaling scheduler) and \<open>sched_add_instance\<close>, which
  stands for \<open>update_instance_infos(self.instance_info)\<close> followed by
  \<open>add_instance(instance_id, instance_args)\<close> on each of the three sub-schedulers.
\<close>

datatype instance_id_arg = Single string | Several "string list"

definition add_instance ::
  "(string \<Rightarrow> 'arg \<Rightarrow> (string \<rightharpoonup> InstanceInfo) \<Rightarrow> 'sch \<Rightarrow> 'sch) \<Rightarrow>
   string \<Rightarrow> 'arg \<Rightarrow> 'sch GlobalScheduler \<Rightarrow> 'sch GlobalScheduler" where
  "add_instance sched_add_instance ins_id ins_args self =
     (let ids = finsert ins_id (instance_id_set self);
          s1 = self\<lparr>instance_id_set := ids, num_instances := int (fcard ids)\<rparr>
      in s1\<lparr>schedulers := sched_add_instance ins_id ins_args (instance_info s1) (schedulers s1)\<rparr>)"

definition scale_up_one ::
  "('sch \<Rightarrow> InstanceInfo) \<Rightarrow> (string \<Rightarrow> 'arg \<Rightarrow> (string \<rightharpoonup> InstanceInfo) \<Rightarrow> 'sch \<Rightarrow> 'sch) \<Rightarrow>
   string \<times> 'arg \<Rightarrow> 'sch GlobalScheduler \<Rightarrow> 'sch GlobalScheduler" where
  "scale_up_one get_empty_instance_info sched_add_instance p self =
     (case p of (ins_id, ins_args) \<Rightarrow>
        if ins_id |\<notin>| instance_id_set self then
          let new_intance_info = (get_empty_instance_info (schedulers self))\<lparr>instance_id := ins_id\<rparr>;
              s1 = self\<lparr>instance_info := (instance_info self)(ins_id \<mapsto> new_intance_info)\<rparr>
          in add_instance sched_add_instance ins_id ins_args s1
        else self)"

definition scale_up ::
  "('sch \<Rightarrow> InstanceInfo) \<Rightarrow> (string \<Rightarrow> 'arg \<Rightarrow> (string \<rightharpoonup> InstanceInfo) \<Rightarrow> 'sch \<Rightarrow> 'sch) \<Rightarrow>
   instance_id_arg \<Rightarrow> 'arg list \<Rightarrow> 'sch GlobalScheduler \<Rightarrow> int \<times> 'sch GlobalScheduler" where
  "scale_up get_empty_instance_info sched_add_instance instance_id_in instance_args self =
     (let instance_ids = (case instance_id_in of Single i \<Rightarrow> [i] | Several is \<Rightarrow> is);
          self' = fold (scale_up_one get_empty_instance_info sched_add_instance)
                    (zip instance_ids instance_args) self
      in (num_instances self', self'))"

section \<open>Specification vocabulary\<close>

text \<open>
  \<open>first_argmin_in P f xs i\<close>: position \<open>i\<close> holds the first element of \<open>xs\<close> that
  satisfies \<open>P\<close> and has the least \<open>f\<close> among the elements satisfying \<open>P\<close>
  (ties broken by first occurrence in \<open>xs\<close>). \<open>first_argmax_in\<close> is the same for the
  greatest \<open>f\<close>.
\<close>

definition first_argmin_in :: "('a \<Rightarrow> bool) \<Rightarrow> ('a \<Rightarrow> 'k::linorder) \<Rightarrow> 'a list \<Rightarrow> nat \<Rightarrow> bool" where
  "first_argmin_in P f xs i \<longleftrightarrow>
     i < length xs \<and> P (xs ! i) \<and>
     (\<forall>j < length xs. P (xs ! j) \<longrightarrow> f (xs ! i) \<le> f (xs ! j)) \<and>
     (\<forall>j < i. P (xs ! j) \<longrightarrow> f (xs ! i) < f (xs ! j))"

definition first_argmax_in :: "('a \<Rightarrow> bool) \<Rightarrow> ('a \<Rightarrow> 'k::linorder) \<Rightarrow> 'a list \<Rightarrow> nat \<Rightarrow> bool" where
  "first_argmax_in P f xs i \<longleftrightarrow>
     i < length xs \<and> P (xs ! i) \<and>
     (\<forall>j < length xs. P (xs ! j) \<longrightarrow> f (xs ! j) \<le> f (xs ! i)) \<and>
     (\<forall>j < i. P (xs ! j) \<longrightarrow> f (xs ! j) < f (xs ! i))"


text \<open>
  \<open>plan_prefix m pre st\<close> is the state in which the planner's loop, started in \<open>st\<close>,
  reaches the request that follows the requests \<open>pre\<close>; \<open>None\<close> when the loop ends
  before (a \<open>break\<close> or an error).
\<close>

fun plan_prefix :: "string \<Rightarrow> Request list \<Rightarrow> plan_state \<Rightarrow> plan_state option" where
  "plan_prefix m [] st = Some st"
| "plan_prefix m (r # rs) st =
     (case plan_iteration m r st of
        Inr (Continue st') \<Rightarrow> plan_prefix m rs st'
      | _ \<Rightarrow> None)"

text \<open>
  \<open>capacity c i\<close> is \<open>candidates[i].free + candidates[i].used\<close>, and \<open>None\<close> for an
  id that is not a key of \<open>c\<close>. \<open>state_of\<close> is the state an iteration leaves behind.
\<close>

definition capacity :: "candidates \<Rightarrow> string \<Rightarrow> int option" where
  "capacity c i = map_option (\<lambda>(free_blocks, used_blocks). free_blocks + used_blocks) (map_of c i)"

fun state_of :: "loop_exit \<Rightarrow> plan_state" where
  "state_of (Break st) = st"
| "state_of (Continue st) = st"

section \<open>Example inputs\<close>

text \<open>
  \<open>example_info i tot used wm waiting running\<close> is a snapshot that satisfies the data
  model's invariant \<open>num_free_gpu_blocks = num_total_gpu_blocks - num_used_gpu_blocks\<close>,
  with the load metrics of an empty instance.
\<close>

definition example_info :: "string \<Rightarrow> int \<Rightarrow> int \<Rightarrow> int \<Rightarrow> int \<Rightarrow> int \<Rightarrow> InstanceInfo" where
  "example_info i tot used wm waiting running =
     \<lparr>instance_id = i, num_total_gpu_blocks = tot, num_used_gpu_blocks = used,
      num_free_gpu_blocks = tot - used, num_watermark_blocks = wm,
      num_waiting_requests = waiting, num_running_requests = running,
      migration_load_metric = NegInf,
      migration_load_metric_after_migrate_out = NegInf,
      migration_load_metric_after_migrate_in = NegInf\<rparr>"

text \<open>Scenario S2 of the specification: used blocks 40, 20, 10, watermark 5, nobody waiting.\<close>

definition s2_infos :: "InstanceInfo list" where
  "s2_infos = [example_info ''a'' 100 40 5 0 1, example_info ''b'' 100 20 5 0 1,
               example_info ''c'' 100 10 5 0 1]"

text \<open>A source and a destination for the Balanced pair migration; threshold \<open>5\<close>.\<close>

definition mig_src :: InstanceInfo where
  "mig_src = (example_info ''s'' 100 80 5 3 4)
     \<lparr>migration_load_metric := Fin 10, migration_load_metric_after_migrate_out := Fin 6,
      migration_load_metric_after_migrate_in := Fin 12\<rparr>"

definition mig_dst :: InstanceInfo where
  "mig_dst = (example_info ''d'' 100 10 5 0 1)
     \<lparr>migration_load_metric := Fin 0, migration_load_metric_after_migrate_out := NegInf,
      migration_load_metric_after_migrate_in := Fin 4\<rparr>"

text \<open>Two redispatch sources: \<open>a\<close> has two waiting requests, \<open>b\<close> has none.\<close>

definition src_infos_ab :: "InstanceInfo list" where
  "src_infos_ab = [example_info ''a'' 100 90 5 2 3, example_info ''b'' 100 10 5 0 1]"

text \<open>
  Two redispatch destinations: \<open>x\<close> has 50 free blocks and 4 running requests, \<open>y\<close> has
  30 free blocks and 1 running request; and a request of 8 blocks.
\<close>

definition dst_infos_xy :: "InstanceInfo list" where
  "dst_infos_xy = [example_info ''x'' 100 50 5 0 4, example_info ''y'' 100 70 5 0 1]"

definition req8 :: Request where
  "req8 = \<lparr>request_id = ''r'', n_blocks = 8\<rparr>"

text \<open>
  Two values for the float parameter of \<open>get_dst_instance\<close>. \<open>quotient\<close> is the
  unrounded quotient; on \<open>dst_infos_xy\<close> the two quotients are about 12.5 and 30, so the
  rounded floats are in the same order. \<open>rounded_2_200002\<close> gives the two doubles that
  Python computes for \<open>2 / (0 + 1e-5)\<close> and \<open>200002 / (1 + 1e-5)\<close>, which are
  \<open>199999.99999999997\<close> and \<open>200000.0\<close>, although the unrounded quotients are equal.
\<close>

definition quotient :: "int \<Rightarrow> int \<Rightarrow> py_error + real" where
  "quotient free_blocks running = Inr (real_of_int free_blocks / (real_of_int running + 1 / 100000))"

definition rounded_2_200002 :: "int \<Rightarrow> int \<Rightarrow> py_error + real" where
  "rounded_2_200002 free_blocks running =
     (if free_blocks = 2 \<and> running = 0 then Inr (19999999999999997 / 100000000000)
      else Inr 200000)"

definition dst_infos_tie :: "InstanceInfo list" where
  "dst_infos_tie = [example_info ''y'' 100 98 0 0 0, example_info ''x'' 300000 99998 0 0 1]"

definition req1 :: Request where
  "req1 = \<lparr>request_id = ''q'', n_blocks = 1\<rparr>"

text \<open>
  Inputs on which a chosen destination cannot hold the request. \<open>overloaded_infos\<close>:
  \<open>a\<close> has 5 waiting requests and 2 free blocks, \<open>b\<close> is idle with 90 free blocks.
  \<open>mixed_infos\<close>: instances of different sizes, nobody waiting. \<open>mixed_cands\<close>: planner
  candidates of different capacities.
\<close>

definition overloaded_infos :: "InstanceInfo list" where
  "overloaded_infos = [example_info ''a'' 100 98 2 5 9, example_info ''b'' 100 10 2 0 1]"

definition mixed_infos :: "InstanceInfo list" where
  "mixed_infos = [example_info ''a'' 100 40 5 0 4, example_info ''b'' 25 20 5 0 2]"

definition mixed_cands :: candidates where
  "mixed_cands = [(''a'', 1, 0), (''b'', 100, 50)]"

definition req10 :: Request where
  "req10 = \<lparr>request_id = ''r10'', n_blocks = 10\<rparr>"

text \<open>Planner candidates of one capacity (free + used = 60).\<close>

definition even_cands :: candidates where
  "even_cands = [(''a'', 50, 10), (''b'', 20, 40)]"

definition req35 :: Request where
  "req35 = \<lparr>request_id = ''r35'', n_blocks = 35\<rparr>"

text \<open>
  A scheduler that knows instance \<open>a\<close> only, with sub-schedulers without state, and the
  two sub-scheduler operations for it.
\<close>

definition sched_a :: "unit GlobalScheduler" where
  "sched_a = \<lparr>num_instances = 1, instance_id_set = {|''a''|},
              instance_info = [''a'' \<mapsto> example_info ''a'' 100 0 5 0 0], schedulers = ()\<rparr>"

definition empty_info :: "unit \<Rightarrow> InstanceInfo" where
  "empty_info u = example_info [] 0 0 0 0 0"

definition no_sched_add :: "string \<Rightarrow> unit \<Rightarrow> (string \<rightharpoonup> InstanceInfo) \<Rightarrow> unit \<Rightarrow> unit" where
  "no_sched_add i a t u = ()"

text \<open>
  Scenario S6 of the specification: master \<open>m\<close>, candidates \<open>m\<close>, \<open>a\<close>, \<open>b\<close> and three
  requests of 8, 8 and 25 blocks.
\<close>

definition s6_cands :: candidates where
  "s6_cands = [(''m'', 0, 50), (''a'', 20, 10), (''b'', 30, 5)]"

definition r1 :: Request where "r1 = \<lparr>request_id = ''r1'', n_blocks = 8\<rparr>"

definition r2 :: Request where "r2 = \<lparr>request_id = ''r2'', n_blocks = 8\<rparr>"

definition r3 :: Request where "r3 = \<lparr>request_id = ''r3'', n_blocks = 25\<rparr>"

text \<open>The planner's loop state on entry in scenario S6, and after the first two requests.\<close>

definition s6_init :: plan_state where
  "s6_init = \<lparr>available_instance_ids = available_ids s6_cands, candidate_instances = s6_cands,
              redispatch_plans = []\<rparr>"

definition s6_after2 :: plan_state where
  "s6_after2 = \<lparr>available_instance_ids = [''a'', ''b''],
                candidate_instances = [(''m'', 0, 50), (''a'', 12, 18), (''b'', 22, 13)],
                redispatch_plans = [(''b'', [r1]), (''a'', [r2])]\<rparr>"

section \<open>Properties of the list primitives\<close>

lemma hd_filter_index:
  "filter Q ys \<noteq> [] \<Longrightarrow>
   \<exists>i<length ys. hd (filter Q ys) = ys ! i \<and> Q (ys ! i) \<and> (\<forall>j<i. \<not> Q (ys ! j))"
proof (induction ys)
  case Nil
  then show ?case by simp
next
  case (Cons y ys)
  show ?case
  proof (cases "Q y")
    case True
    then show ?thesis by (intro exI [of _ 0]) simp
  next
    case False
    with Cons obtain i where i: "i < length ys" "hd (filter Q ys) = ys ! i" "Q (ys ! i)"
      "\<forall>j<i. \<not> Q (ys ! j)" by auto
    have "\<forall>j<Suc i. \<not> Q ((y # ys) ! j)"
      using False i(4) by (auto simp: nth_Cons split: nat.splits)
    with i False show ?thesis by (intro exI [of _ "Suc i"]) simp
  qed
qed

lemma hd_sort_key_stable:
  assumes "ys \<noteq> []"
  shows "hd (sort_key f ys) = hd (filter (\<lambda>y. f y = f (hd (sort_key f ys))) ys)"
proof -
  let ?s = "sort_key f ys"
  from assms have ne: "?s \<noteq> []" by (metis length_0_conv length_sort)
  have "hd (filter (\<lambda>y. f y = f (hd ?s)) ?s) = hd ?s"
    using ne by (cases ?s) auto
  then show ?thesis by (simp add: sort_key_stable)
qed

lemma hd_sort_key_le:
  assumes "y \<in> set ys"
  shows "f (hd (sort_key f ys)) \<le> f y"
proof -
  let ?s = "sort_key f ys"
  have "sorted (map f ?s)" by simp
  moreover have "y \<in> set ?s" using assms by simp
  ultimately show ?thesis
    by (cases ?s) auto
qed

lemma last_filter_last:
  "xs \<noteq> [] \<Longrightarrow> Q (last xs) \<Longrightarrow> last (filter Q xs) = last xs"
  by (induction xs) (auto simp: filter_empty_conv)

lemma last_sort_key_stable:
  assumes "ys \<noteq> []"
  shows "last (sort_key f (rev ys)) = hd (filter (\<lambda>y. f y = f (last (sort_key f (rev ys)))) ys)"
proof -
  let ?s = "sort_key f (rev ys)"
  let ?Q = "\<lambda>y. f y = f (last ?s)"
  from assms have ne: "?s \<noteq> []" by (metis length_0_conv length_sort length_rev)
  have "last (filter ?Q ?s) = last ?s"
    using ne by (simp add: last_filter_last)
  moreover have "filter ?Q ?s = rev (filter ?Q ys)"
    by (simp add: sort_key_stable rev_filter)
  moreover have "filter ?Q ys \<noteq> []"
  proof -
    have "last ?s \<in> set ys" using ne last_in_set [of ?s] by simp
    then show ?thesis by (auto simp: filter_empty_conv)
  qed
  ultimately show ?thesis by (simp add: last_rev)
qed

lemma sorted_map_le_last:
  "sorted (map f s) \<Longrightarrow> y \<in> set s \<Longrightarrow> f y \<le> f (last s)"
  by (induction s) auto

lemma last_sort_key_ge:
  assumes "y \<in> set ys"
  shows "f y \<le> f (last (sort_key f ys))"
  using assms by (intro sorted_map_le_last) simp_all


lemma first_item_sorted_asc:
  assumes "filter P xs \<noteq> []"
  shows "\<exists>i. first_item (py_sorted f False (filter P xs)) = Inr (xs ! i) \<and> first_argmin_in P f xs i"
proof -
  let ?ys = "filter P xs"
  let ?s = "sort_key f ?ys"
  let ?m = "f (hd ?s)"
  from assms have ne: "?s \<noteq> []" by (metis length_0_conv length_sort)
  have hd_eq: "hd ?s = hd (filter (\<lambda>x. P x \<and> f x = ?m) xs)"
    using hd_sort_key_stable [OF assms, of f] by simp
  have "hd ?s \<in> set ?ys" using ne hd_in_set [of ?s] by simp
  then have "filter (\<lambda>x. P x \<and> f x = ?m) xs \<noteq> []"
    by (auto simp: filter_empty_conv)
  from hd_filter_index [OF this] obtain i where i: "i < length xs"
    "hd (filter (\<lambda>x. P x \<and> f x = ?m) xs) = xs ! i" "P (xs ! i)" "f (xs ! i) = ?m"
    "\<forall>j<i. \<not> (P (xs ! j) \<and> f (xs ! j) = ?m)" by blast
  have le: "?m \<le> f (xs ! j)" if "j < length xs" "P (xs ! j)" for j
    using that by (intro hd_sort_key_le) simp
  have "first_argmin_in P f xs i"
    unfolding first_argmin_in_def
  proof (intro conjI allI impI)
    show "i < length xs" by (rule i(1))
    show "P (xs ! i)" by (rule i(3))
    show "f (xs ! i) \<le> f (xs ! j)" if "j < length xs" "P (xs ! j)" for j
      using le [OF that] i(4) by simp
    show "f (xs ! i) < f (xs ! j)" if "j < i" "P (xs ! j)" for j
    proof -
      from that i(1) have "j < length xs" by simp
      from le [OF this that(2)] have "f (xs ! i) \<le> f (xs ! j)" by (simp add: i(4))
      moreover from i(5) that have "f (xs ! i) \<noteq> f (xs ! j)" by (auto simp: i(4))
      ultimately show ?thesis by (rule order.not_eq_order_implies_strict [rotated])
    qed
  qed
  moreover have "first_item (py_sorted f False ?ys) = Inr (xs ! i)"
    using ne hd_eq i(2) by (cases ?s) (simp_all add: first_item_def py_sorted_def)
  ultimately show ?thesis by blast
qed

lemma first_item_sorted_desc:
  assumes "filter P xs \<noteq> []"
  shows "\<exists>i. first_item (py_sorted f True (filter P xs)) = Inr (xs ! i) \<and> first_argmax_in P f xs i"
proof -
  let ?ys = "filter P xs"
  let ?s = "sort_key f (rev ?ys)"
  let ?m = "f (last ?s)"
  from assms have ne: "?s \<noteq> []" by (metis length_0_conv length_sort length_rev)
  have last_eq: "last ?s = hd (filter (\<lambda>x. P x \<and> f x = ?m) xs)"
    using last_sort_key_stable [OF assms, of f] by simp
  have "last ?s \<in> set ?ys" using ne last_in_set [of ?s] by simp
  then have "filter (\<lambda>x. P x \<and> f x = ?m) xs \<noteq> []"
    by (auto simp: filter_empty_conv)
  from hd_filter_index [OF this] obtain i where i: "i < length xs"
    "hd (filter (\<lambda>x. P x \<and> f x = ?m) xs) = xs ! i" "P (xs ! i)" "f (xs ! i) = ?m"
    "\<forall>j<i. \<not> (P (xs ! j) \<and> f (xs ! j) = ?m)" by blast
  have ge: "f (xs ! j) \<le> ?m" if "j < length xs" "P (xs ! j)" for j
    using that by (intro last_sort_key_ge) simp
  have "first_argmax_in P f xs i"
    unfolding first_argmax_in_def
  proof (intro conjI allI impI)
    show "i < length xs" by (rule i(1))
    show "P (xs ! i)" by (rule i(3))
    show "f (xs ! j) \<le> f (xs ! i)" if "j < length xs" "P (xs ! j)" for j
      using ge [OF that] i(4) by simp
    show "f (xs ! j) < f (xs ! i)" if "j < i" "P (xs ! j)" for j
    proof -
      from that i(1) have "j < length xs" by simp
      from ge [OF this that(2)] have "f (xs ! j) \<le> f (xs ! i)" by (simp add: i(4))
      moreover from i(5) that have "f (xs ! j) \<noteq> f (xs ! i)" by (auto simp: i(4))
      ultimately show ?thesis by (rule order.not_eq_order_implies_strict [rotated])
    qed
  qed
  moreover have "first_item (py_sorted f True ?ys) = Inr (xs ! i)"
  proof -
    from ne obtain a l where al: "rev ?s = a # l" by (cases "rev ?s") auto
    then have "hd (rev ?s) = a" by simp
    then have "a = xs ! i" using last_eq i(2) by (simp add: hd_rev)
    with al show ?thesis by (simp add: first_item_def py_sorted_def)
  qed
  ultimately show ?thesis by blast
qed

lemma length_filter_eq_iff:
  "(length (filter P xs) = length xs) = (\<forall>x \<in> set xs. P x)"
proof (induction xs)
  case Nil
  then show ?case by simp
next
  case (Cons x xs)
  have "length (filter P xs) \<noteq> Suc (length xs)"
    using length_filter_le [of P xs] by linarith
  with Cons show ?case by auto
qed

lemma py_max_nonempty: "xs \<noteq> [] \<Longrightarrow> py_max xs = Inr (Max (set xs))"
  by (cases xs) (simp_all add: py_max_def Max.set_eq_fold [symmetric])

section \<open>Loadv2 dispatch\<close>

text \<open>The three branches of \<open>Loadv2.dispatch\<close>, one lemma each.\<close>

lemma Loadv2_idle_fit:
  assumes "infos \<noteq> []" and idle: "\<forall>x \<in> set infos. num_waiting_requests x = 0"
    and fit: "\<exists>x \<in> set infos.
       Max (set (map num_used_gpu_blocks infos)) - num_watermark_blocks x - num_used_gpu_blocks x - n \<ge> 0"
  shows "\<exists>i. Loadv2_dispatch infos (Some n) = Inr (instance_id (infos ! i)) \<and>
     first_argmin_in
       (\<lambda>x. Max (set (map num_used_gpu_blocks infos)) - num_watermark_blocks x - num_used_gpu_blocks x - n \<ge> 0)
       (\<lambda>x. Max (set (map num_used_gpu_blocks infos)) - num_watermark_blocks x - num_used_gpu_blocks x - n)
       infos i"
proof -
  let ?mx = "Max (set (map num_used_gpu_blocks infos))"
  let ?P = "\<lambda>x. loadv2_slack ?mx n x \<ge> 0"
  have mx: "py_max (map num_used_gpu_blocks infos) = Inr ?mx"
    using assms(1) by (intro py_max_nonempty) simp
  from fit have ne: "filter ?P infos \<noteq> []"
    by (auto simp: filter_empty_conv loadv2_slack_def)
  from first_item_sorted_asc [OF ne, of "loadv2_slack ?mx n"]
  obtain i where i: "first_item (py_sorted (loadv2_slack ?mx n) False (filter ?P infos)) = Inr (infos ! i)"
    "first_argmin_in ?P (loadv2_slack ?mx n) infos i" by blast
  have "Loadv2_dispatch infos (Some n) = Inr (instance_id (infos ! i))"
    using mx idle ne i(1) by (simp add: Loadv2_dispatch_def length_filter_eq_iff)
  with i(2) show ?thesis
    unfolding loadv2_slack_def by (intro exI [of _ i]) simp
qed

lemma Loadv2_idle_overshoot:
  assumes "infos \<noteq> []" and idle: "\<forall>x \<in> set infos. num_waiting_requests x = 0"
    and nofit: "\<not> (\<exists>x \<in> set infos.
       Max (set (map num_used_gpu_blocks infos)) - num_watermark_blocks x - num_used_gpu_blocks x - n \<ge> 0)"
  shows "\<exists>i. Loadv2_dispatch infos (Some n) = Inr (instance_id (infos ! i)) \<and>
     first_argmin_in (\<lambda>x. True)
       (\<lambda>x. num_used_gpu_blocks x + n + num_watermark_blocks x - Max (set (map num_used_gpu_blocks infos)))
       infos i"
proof -
  let ?mx = "Max (set (map num_used_gpu_blocks infos))"
  let ?P = "\<lambda>x. loadv2_slack ?mx n x \<ge> 0"
  have mx: "py_max (map num_used_gpu_blocks infos) = Inr ?mx"
    using assms(1) by (intro py_max_nonempty) simp
  have all: "filter (\<lambda>x. True) infos \<noteq> []" using assms(1) by simp
  from nofit have emp: "filter ?P infos = []"
    by (auto simp: filter_empty_conv loadv2_slack_def)
  from first_item_sorted_asc [OF all, of "loadv2_overshoot ?mx n"]
  obtain i where i: "first_item (py_sorted (loadv2_overshoot ?mx n) False infos) = Inr (infos ! i)"
    "first_argmin_in (\<lambda>x. True) (loadv2_overshoot ?mx n) infos i" by auto
  have "Loadv2_dispatch infos (Some n) = Inr (instance_id (infos ! i))"
    using mx idle emp i(1) by (simp add: Loadv2_dispatch_def length_filter_eq_iff)
  with i(2) show ?thesis
    unfolding loadv2_overshoot_def by (intro exI [of _ i]) simp
qed

lemma Loadv2_overloaded:
  assumes "infos \<noteq> []" and busy: "\<not> (\<forall>x \<in> set infos. num_waiting_requests x = 0)"
  shows "\<exists>i. Loadv2_dispatch infos req = Inr (instance_id (infos ! i)) \<and>
     first_argmax_in (\<lambda>x. True) num_waiting_requests infos i"
proof -
  have mx: "py_max (map num_used_gpu_blocks infos) = Inr (Max (set (map num_used_gpu_blocks infos)))"
    using assms(1) by (intro py_max_nonempty) simp
  have all: "filter (\<lambda>x. True) infos \<noteq> []" using assms(1) by simp
  from first_item_sorted_desc [OF all, of num_waiting_requests]
  obtain i where i: "first_item (py_sorted num_waiting_requests True infos) = Inr (infos ! i)"
    "first_argmax_in (\<lambda>x. True) num_waiting_requests infos i" by auto
  have "Loadv2_dispatch infos req = Inr (instance_id (infos ! i))"
    using mx busy i(1) by (auto simp add: Loadv2_dispatch_def length_filter_eq_iff)
  with i(2) show ?thesis by blast
qed

text \<open>
  Claim C2. On a non-empty list of available instances and an integer \<open>req_n_blocks\<close>,
  \<open>Loadv2.dispatch\<close> returns the id of the instance at a position \<open>i\<close> of the input
  list such that, with \<open>max_used\<close> the greatest \<open>num_used_gpu_blocks\<close>:
  (a) if nobody has waiting requests and some instance has slack
  \<open>max_used - watermark - used - req_n_blocks \<ge> 0\<close>, \<open>i\<close> is the first position of least
  slack among the instances with non-negative slack;
  (b) if nobody has waiting requests and no instance has non-negative slack, \<open>i\<close> is
  the first position of least \<open>used + req_n_blocks + watermark - max_used\<close>;
  (c) otherwise \<open>i\<close> is the first position of greatest \<open>num_waiting_requests\<close>.
\<close>

theorem Loadv2_dispatch_spec:
  assumes "infos \<noteq> []"
  shows "\<exists>i. Loadv2_dispatch infos (Some n) = Inr (instance_id (infos ! i)) \<and>
    (let max_used = Max (set (map num_used_gpu_blocks infos)) in
     if \<forall>x \<in> set infos. num_waiting_requests x = 0 then
       if \<exists>x \<in> set infos. max_used - num_watermark_blocks x - num_used_gpu_blocks x - n \<ge> 0 then
         first_argmin_in
           (\<lambda>x. max_used - num_watermark_blocks x - num_used_gpu_blocks x - n \<ge> 0)
           (\<lambda>x. max_used - num_watermark_blocks x - num_used_gpu_blocks x - n) infos i
       else
         first_argmin_in (\<lambda>x. True)
           (\<lambda>x. num_used_gpu_blocks x + n + num_watermark_blocks x - max_used) infos i
     else first_argmax_in (\<lambda>x. True) num_waiting_requests infos i)"
proof (cases "\<forall>x \<in> set infos. num_waiting_requests x = 0")
  case idle: True
  show ?thesis
  proof (cases "\<exists>x \<in> set infos.
       Max (set (map num_used_gpu_blocks infos)) - num_watermark_blocks x - num_used_gpu_blocks x - n \<ge> 0")
    case True
    from Loadv2_idle_fit [OF assms idle True] show ?thesis
      unfolding Let_def if_P [OF idle] if_P [OF True] .
  next
    case False
    from Loadv2_idle_overshoot [OF assms idle False] show ?thesis
      unfolding Let_def if_P [OF idle] if_not_P [OF False] .
  qed
next
  case False
  from Loadv2_overloaded [OF assms False, of "Some n"] show ?thesis
    unfolding Let_def if_not_P [OF False] .
qed

theorem Loadv2_dispatch_spec_witness:
  "s2_infos \<noteq> [] \<and>
   (\<exists>i. Loadv2_dispatch s2_infos (Some 8) = Inr (instance_id (s2_infos ! i)) \<and>
        first_argmin_in (\<lambda>x. 40 - num_watermark_blocks x - num_used_gpu_blocks x - 8 \<ge> 0)
          (\<lambda>x. 40 - num_watermark_blocks x - num_used_gpu_blocks x - 8) s2_infos i)"
proof -
  have ne: "s2_infos \<noteq> []" by (simp add: s2_infos_def)
  have mx: "Max (set (map num_used_gpu_blocks s2_infos)) = 40"
    by (simp add: s2_infos_def example_info_def)
  have idle: "\<forall>x \<in> set s2_infos. num_waiting_requests x = 0"
    by (simp add: s2_infos_def example_info_def)
  have fits: "\<exists>x \<in> set s2_infos. 40 - num_watermark_blocks x - num_used_gpu_blocks x - 8 \<ge> 0"
    by (simp add: s2_infos_def example_info_def)
  from Loadv2_dispatch_spec [OF ne, of 8] show ?thesis
    unfolding mx Let_def using ne idle fits by simp
qed


section \<open>Balanced pair migration\<close>

lemma balanced_pairs_guard:
  "(s, d) \<in> set (balanced_pairs thr ps) \<Longrightarrow>
   \<exists>(src, dst) \<in> set ps. instance_id src = s \<and> instance_id dst = d \<and>
      \<not> migration_load_metric_after_migrate_in dst > thr \<and>
      ((flt (Some (Fin 0)) (fsub (migration_load_metric_after_migrate_out src)
                                (migration_load_metric_after_migrate_in dst)) \<and>
        flt (fsub (migration_load_metric_after_migrate_out src)
                  (migration_load_metric_after_migrate_in dst))
            (fsub (migration_load_metric src) (migration_load_metric dst)))
       \<or> migration_load_metric dst = NegInf)"
proof (induction ps)
  case Nil
  then show ?case by simp
next
  case (Cons p ps)
  obtain src dst where p: "p = (src, dst)" by (cases p)
  from Cons.prems have "(s, d) = (instance_id src, instance_id dst) \<and>
      \<not> migration_load_metric_after_migrate_in dst > thr \<and>
      ((flt (Some (Fin 0)) (fsub (migration_load_metric_after_migrate_out src)
                                (migration_load_metric_after_migrate_in dst)) \<and>
        flt (fsub (migration_load_metric_after_migrate_out src)
                  (migration_load_metric_after_migrate_in dst))
            (fsub (migration_load_metric src) (migration_load_metric dst)))
       \<or> migration_load_metric dst = NegInf)
     \<or> (s, d) \<in> set (balanced_pairs thr ps)"
    unfolding p by (simp add: Let_def split: if_splits)
  then show ?case
  proof
    assume "(s, d) \<in> set (balanced_pairs thr ps)"
    from Cons.IH [OF this] show ?thesis by auto
  next
    assume *: "(s, d) = (instance_id src, instance_id dst) \<and>
      \<not> migration_load_metric_after_migrate_in dst > thr \<and>
      ((flt (Some (Fin 0)) (fsub (migration_load_metric_after_migrate_out src)
                                (migration_load_metric_after_migrate_in dst)) \<and>
        flt (fsub (migration_load_metric_after_migrate_out src)
                  (migration_load_metric_after_migrate_in dst))
            (fsub (migration_load_metric src) (migration_load_metric dst)))
       \<or> migration_load_metric dst = NegInf)"
    show ?thesis
      unfolding p using * by (intro bexI [of _ "(src, dst)"]) auto
  qed
qed

lemma set_py_sorted: "set (py_sorted key r xs) = set xs"
  by (simp add: py_sorted_def)

text \<open>
  Claim C3 (anti-ping-pong). Every pair \<open>(s, d)\<close> returned by \<open>Balanced.pair_migration\<close>
  consists of the ids of a source \<open>src\<close> and a destination \<open>dst\<close> paired by the lockstep
  walk over the two sorted lists, with
  \<open>dst.migration_load_metric_after_migrate_in \<le> migrate_out_load_threshold\<close>, and either
  \<open>0 < diff_after < diff_before\<close> (the float differences the code computes) or
  \<open>dst.migration_load_metric = -inf\<close>.
\<close>

theorem Balanced_pair_migration_guard:
  assumes "(s, d) \<in> set (Balanced_pair_migration thr srcs dsts)"
  shows "\<exists>src \<in> set srcs. \<exists>dst \<in> set dsts.
      (src, dst) \<in> set (zip (sort_instance_infos srcs True) (sort_instance_infos dsts False)) \<and>
      instance_id src = s \<and> instance_id dst = d \<and>
      migration_load_metric_after_migrate_in dst \<le> thr \<and>
      ((flt (Some (Fin 0)) (fsub (migration_load_metric_after_migrate_out src)
                                (migration_load_metric_after_migrate_in dst)) \<and>
        flt (fsub (migration_load_metric_after_migrate_out src)
                  (migration_load_metric_after_migrate_in dst))
            (fsub (migration_load_metric src) (migration_load_metric dst)))
       \<or> migration_load_metric dst = NegInf)"
proof -
  let ?ps = "zip (sort_instance_infos srcs True) (sort_instance_infos dsts False)"
  from assms have "(s, d) \<in> set (balanced_pairs thr ?ps)"
    by (simp add: Balanced_pair_migration_def)
  from balanced_pairs_guard [OF this] obtain src dst where sd: "(src, dst) \<in> set ?ps"
    "instance_id src = s" "instance_id dst = d"
    "\<not> migration_load_metric_after_migrate_in dst > thr"
    "(flt (Some (Fin 0)) (fsub (migration_load_metric_after_migrate_out src)
                                (migration_load_metric_after_migrate_in dst)) \<and>
        flt (fsub (migration_load_metric_after_migrate_out src)
                  (migration_load_metric_after_migrate_in dst))
            (fsub (migration_load_metric src) (migration_load_metric dst)))
       \<or> migration_load_metric dst = NegInf" by auto
  from sd(1) have "src \<in> set srcs" "dst \<in> set dsts"
    by (auto dest: set_zip_leftD set_zip_rightD simp: sort_instance_infos_def set_py_sorted)
  with sd show ?thesis by (auto simp: not_less)
qed

theorem Balanced_pair_migration_guard_witness:
  "(''s'', ''d'') \<in> set (Balanced_pair_migration (Fin 5) [mig_src] [mig_dst]) \<and>
   instance_id mig_src = ''s'' \<and> instance_id mig_dst = ''d'' \<and>
   migration_load_metric_after_migrate_in mig_dst \<le> Fin 5 \<and>
   flt (Some (Fin 0)) (fsub (migration_load_metric_after_migrate_out mig_src)
                           (migration_load_metric_after_migrate_in mig_dst)) \<and>
   flt (fsub (migration_load_metric_after_migrate_out mig_src)
             (migration_load_metric_after_migrate_in mig_dst))
       (fsub (migration_load_metric mig_src) (migration_load_metric mig_dst))"
proof -
  have h: "(''s'', ''d'') \<in> set (Balanced_pair_migration (Fin 5) [mig_src] [mig_dst])"
    by (simp add: Balanced_pair_migration_def sort_instance_infos_def py_sorted_def
      mig_src_def mig_dst_def example_info_def less_load_def less_eq_load_def)
  have ne: "migration_load_metric mig_dst \<noteq> NegInf"
    by (simp add: mig_dst_def)
  from Balanced_pair_migration_guard [OF h] ne h show ?thesis
    by simp
qed

section \<open>Urgency redispatch\<close>

lemma get_src_instances_none:
  "\<forall>x \<in> set xs. \<not> num_waiting_requests x > 0 \<Longrightarrow> get_src_instances xs = None"
  by (simp add: get_src_instances_def filter_empty_conv)

lemma get_src_instances_all_ids:
  "get_src_instances xs = Some ids \<Longrightarrow> set ids = instance_id ` set xs"
  by (auto simp: get_src_instances_def Let_def py_sorted_def split: if_splits)

text \<open>
  Claim C4. \<open>Urgency.get_src_instances\<close> is claimed to return exactly the ids of the
  instances with \<open>num_waiting_requests > 0\<close>. The code filters only to test whether any
  such instance exists and then sorts the unfiltered input: on the sources \<open>a\<close> (two
  waiting requests) and \<open>b\<close> (none) it returns both ids, \<open>b\<close> included.
\<close>

theorem get_src_instances_unfiltered:
  "get_src_instances src_infos_ab = Some [''a'', ''b''] \<and>
   num_waiting_requests (src_infos_ab ! 1) = 0 \<and> instance_id (src_infos_ab ! 1) = ''b''"
  by (simp add: get_src_instances_def src_infos_ab_def example_info_def py_sorted_def)


text \<open>Sorting with a key that can raise: when no key raises, it is \<open>py_sorted\<close>.\<close>

lemma keys_of_Inr:
  "\<forall>x \<in> set xs. \<not> isl (key x) \<Longrightarrow>
   keys_of key xs = Inr (map (\<lambda>x. (projr (key x), x)) xs)"
proof (induction xs)
  case Nil
  then show ?case by simp
next
  case (Cons a xs)
  then obtain k where "key a = Inr k" by (cases "key a") auto
  with Cons show ?case by simp
qed

lemma keys_of_Inl:
  "x \<in> set xs \<Longrightarrow> isl (key x) \<Longrightarrow>
   \<exists>y \<in> set xs. isl (key y) \<and> keys_of key xs = Inl (projl (key y))"
proof (induction xs)
  case Nil
  then show ?case by simp
next
  case (Cons a xs)
  show ?case
  proof (cases "key a")
    case (Inl e)
    then show ?thesis by (intro bexI [of _ a]) simp_all
  next
    case (Inr k)
    with Cons.prems have "x \<in> set xs" by auto
    from Cons.IH [OF this Cons.prems(2)] obtain y where
      "y \<in> set xs" "isl (key y)" "keys_of key xs = Inl (projl (key y))" by blast
    with Inr show ?thesis by (intro bexI [of _ y]) simp_all
  qed
qed

lemma map_snd_insort_key:
  "\<forall>z \<in> set zs. fst z = g (snd z) \<Longrightarrow>
   map snd (insort_key fst (g x, x) zs) = insort_key g x (map snd zs)"
  by (induction zs) auto

lemma map_snd_sort_key:
  "map snd (sort_key fst (map (\<lambda>x. (g x, x)) ys)) = sort_key g ys"
proof (induction ys)
  case Nil
  then show ?case by simp
next
  case (Cons y ys)
  have "\<forall>z \<in> set (sort_key fst (map (\<lambda>x. (g x, x)) ys)). fst z = g (snd z)"
    by auto
  from map_snd_insort_key [OF this, of y] Cons show ?case by simp
qed

lemma map_snd_py_sorted:
  "map snd (py_sorted fst r (map (\<lambda>x. (g x, x)) ys)) = py_sorted g r ys"
proof (cases r)
  case True
  have "map snd (rev (sort_key fst (rev (map (\<lambda>x. (g x, x)) ys))))
      = rev (map snd (sort_key fst (map (\<lambda>x. (g x, x)) (rev ys))))"
    by (simp only: rev_map)
  also have "\<dots> = rev (sort_key g (rev ys))"
    by (simp only: map_snd_sort_key)
  finally show ?thesis using True by (simp add: py_sorted_def)
next
  case False
  then show ?thesis by (simp add: py_sorted_def map_snd_sort_key)
qed

lemma py_sorted_raising_Inr:
  assumes "\<forall>x \<in> set xs. \<not> isl (key x)"
  shows "py_sorted_raising key r xs = Inr (py_sorted (\<lambda>x. projr (key x)) r xs)"
  unfolding py_sorted_raising_def keys_of_Inr [OF assms]
  by (simp add: map_snd_py_sorted)

lemma py_sorted_raising_Inl:
  assumes "x \<in> set xs" "isl (key x)"
  shows "\<exists>y \<in> set xs. isl (key y) \<and> py_sorted_raising key r xs = Inl (projl (key y))"
proof -
  from keys_of_Inl [of x xs key, OF assms] obtain y where
    "y \<in> set xs" "isl (key y)" "keys_of key xs = Inl (projl (key y))" by blast
  then show ?thesis by (intro bexI [of _ y]) (simp_all add: py_sorted_raising_def)
qed

text \<open>The three outcomes of \<open>Urgency.get_dst_instance\<close>, one lemma each.\<close>

lemma get_dst_instance_none:
  assumes "\<forall>x \<in> set dsts. \<not> num_free_gpu_blocks x - num_watermark_blocks x - n_blocks r > 0"
  shows "get_dst_instance ratio dsts src r = Inr None"
proof -
  from assms have
    "filter (\<lambda>x. num_free_gpu_blocks x - num_watermark_blocks x - n_blocks r > 0) dsts = []"
    by (auto simp: filter_empty_conv)
  then show ?thesis by (simp add: get_dst_instance_def)
qed

lemma get_dst_instance_raises:
  assumes "x \<in> set dsts"
    and "num_free_gpu_blocks x - num_watermark_blocks x - n_blocks r > 0"
    and "isl (ratio (num_free_gpu_blocks x) (num_running_requests x))"
  shows "\<exists>y \<in> set dsts. num_free_gpu_blocks y - num_watermark_blocks y - n_blocks r > 0 \<and>
           isl (ratio (num_free_gpu_blocks y) (num_running_requests y)) \<and>
           get_dst_instance ratio dsts src r =
             Inl (projl (ratio (num_free_gpu_blocks y) (num_running_requests y)))"
proof -
  let ?P = "\<lambda>x. num_free_gpu_blocks x - num_watermark_blocks x - n_blocks r > 0"
  let ?key = "\<lambda>x. ratio (num_free_gpu_blocks x) (num_running_requests x)"
  from assms have mem: "x \<in> set (filter ?P dsts)" by simp
  from assms have ne: "filter ?P dsts \<noteq> []" by (auto simp: filter_empty_conv)
  from py_sorted_raising_Inl [of x "filter ?P dsts" ?key True, OF mem assms(3)]
  obtain y where y: "y \<in> set (filter ?P dsts)" "isl (?key y)"
    "py_sorted_raising ?key True (filter ?P dsts) = Inl (projl (?key y))" by blast
  have "get_dst_instance ratio dsts src r = Inl (projl (?key y))"
    using ne y(3) by (simp add: get_dst_instance_def Let_def)
  with y(1,2) show ?thesis by (intro bexI [of _ y]) simp_all
qed

lemma get_dst_instance_head:
  assumes adm: "\<not> (\<forall>x \<in> set dsts.
             \<not> num_free_gpu_blocks x - num_watermark_blocks x - n_blocks r > 0)"
    and ok: "\<forall>x \<in> set dsts. num_free_gpu_blocks x - num_watermark_blocks x - n_blocks r > 0 \<longrightarrow>
             \<not> isl (ratio (num_free_gpu_blocks x) (num_running_requests x))"
  shows "\<exists>i. first_argmax_in
               (\<lambda>x. num_free_gpu_blocks x - num_watermark_blocks x - n_blocks r > 0)
               (\<lambda>x. projr (ratio (num_free_gpu_blocks x) (num_running_requests x))) dsts i \<and>
             get_dst_instance ratio dsts src r =
               Inr (if instance_id (dsts ! i) = src then None else Some (instance_id (dsts ! i)))"
proof -
  let ?P = "\<lambda>x. num_free_gpu_blocks x - num_watermark_blocks x - n_blocks r > 0"
  let ?key = "\<lambda>x. ratio (num_free_gpu_blocks x) (num_running_requests x)"
  from adm have ne: "filter ?P dsts \<noteq> []" by (auto simp: filter_empty_conv)
  from ok have "\<forall>x \<in> set (filter ?P dsts). \<not> isl (?key x)" by simp
  from py_sorted_raising_Inr [OF this, of True]
  have srt: "py_sorted_raising ?key True (filter ?P dsts) =
      Inr (py_sorted (\<lambda>x. projr (?key x)) True (filter ?P dsts))" .
  from first_item_sorted_desc [OF ne, of "\<lambda>x. projr (?key x)"] obtain i where
    i: "first_item (py_sorted (\<lambda>x. projr (?key x)) True (filter ?P dsts)) = Inr (dsts ! i)"
       "first_argmax_in ?P (\<lambda>x. projr (?key x)) dsts i" by blast
  have "get_dst_instance ratio dsts src r =
          Inr (if instance_id (dsts ! i) = src then None else Some (instance_id (dsts ! i)))"
    using ne srt i(1) by (simp add: get_dst_instance_def Let_def)
  with i(2) show ?thesis by blast
qed

text \<open>
  Claim C6. Whatever floats the division \<open>num_free_gpu_blocks / (num_running_requests + 1e-5)\<close>
  yields (the parameter \<open>ratio\<close>), \<open>Urgency.get_dst_instance\<close> returns none when no
  instance has \<open>num_free_gpu_blocks - num_watermark_blocks - request.n_blocks > 0\<close>.
  Otherwise, if the division raises for an admissible instance, that error is the
  result; else there is a position \<open>i\<close>, the first one of greatest computed
  \<open>num_free_gpu_blocks / (num_running_requests + 1e-5)\<close> among the admissible instances,
  and the result is that instance's id, or none when that id is \<open>src_id\<close>. The result
  is never \<open>src_id\<close>.
\<close>

theorem get_dst_instance_spec:
  fixes ratio :: "int \<Rightarrow> int \<Rightarrow> py_error + 'k::linorder"
  shows
  "(if \<forall>x \<in> set dsts. \<not> num_free_gpu_blocks x - num_watermark_blocks x - n_blocks r > 0
    then get_dst_instance ratio dsts src r = Inr None
    else if \<exists>x \<in> set dsts. num_free_gpu_blocks x - num_watermark_blocks x - n_blocks r > 0 \<and>
               isl (ratio (num_free_gpu_blocks x) (num_running_requests x))
    then \<exists>y \<in> set dsts. num_free_gpu_blocks y - num_watermark_blocks y - n_blocks r > 0 \<and>
           isl (ratio (num_free_gpu_blocks y) (num_running_requests y)) \<and>
           get_dst_instance ratio dsts src r =
             Inl (projl (ratio (num_free_gpu_blocks y) (num_running_requests y)))
    else \<exists>i. first_argmax_in
               (\<lambda>x. num_free_gpu_blocks x - num_watermark_blocks x - n_blocks r > 0)
               (\<lambda>x. projr (ratio (num_free_gpu_blocks x) (num_running_requests x))) dsts i \<and>
             get_dst_instance ratio dsts src r =
               Inr (if instance_id (dsts ! i) = src then None else Some (instance_id (dsts ! i))))
   \<and> get_dst_instance ratio dsts src r \<noteq> Inr (Some src)"
proof (cases "\<forall>x \<in> set dsts. \<not> num_free_gpu_blocks x - num_watermark_blocks x - n_blocks r > 0")
  case True
  from get_dst_instance_none [OF True, of ratio src] True show ?thesis by simp
next
  case adm: False
  show ?thesis
  proof (cases "\<exists>x \<in> set dsts. num_free_gpu_blocks x - num_watermark_blocks x - n_blocks r > 0 \<and>
               isl (ratio (num_free_gpu_blocks x) (num_running_requests x))")
    case True
    then obtain x where "x \<in> set dsts"
      "num_free_gpu_blocks x - num_watermark_blocks x - n_blocks r > 0"
      "isl (ratio (num_free_gpu_blocks x) (num_running_requests x))" by blast
    from get_dst_instance_raises [of x dsts r ratio src, OF this]
    have *: "\<exists>y \<in> set dsts. num_free_gpu_blocks y - num_watermark_blocks y - n_blocks r > 0 \<and>
           isl (ratio (num_free_gpu_blocks y) (num_running_requests y)) \<and>
           get_dst_instance ratio dsts src r =
             Inl (projl (ratio (num_free_gpu_blocks y) (num_running_requests y)))" .
    then have "get_dst_instance ratio dsts src r \<noteq> Inr (Some src)" by auto
    with * show ?thesis
      unfolding if_not_P [OF adm] if_P [OF True] by (rule conjI)
  next
    case False
    then have ok: "\<forall>x \<in> set dsts.
        num_free_gpu_blocks x - num_watermark_blocks x - n_blocks r > 0 \<longrightarrow>
        \<not> isl (ratio (num_free_gpu_blocks x) (num_running_requests x))" by blast
    from get_dst_instance_head [OF adm ok, of src]
    have *: "\<exists>i. first_argmax_in
               (\<lambda>x. num_free_gpu_blocks x - num_watermark_blocks x - n_blocks r > 0)
               (\<lambda>x. projr (ratio (num_free_gpu_blocks x) (num_running_requests x))) dsts i \<and>
             get_dst_instance ratio dsts src r =
               Inr (if instance_id (dsts ! i) = src then None else Some (instance_id (dsts ! i)))" .
    then have "get_dst_instance ratio dsts src r \<noteq> Inr (Some src)"
      by (auto split: if_splits)
    with * show ?thesis
      unfolding if_not_P [OF adm] if_not_P [OF False] by (rule conjI)
  qed
qed

theorem get_dst_instance_spec_witness:
  "\<not> (\<forall>x \<in> set dst_infos_xy.
        \<not> num_free_gpu_blocks x - num_watermark_blocks x - n_blocks req8 > 0) \<and>
   \<not> (\<exists>x \<in> set dst_infos_xy.
        num_free_gpu_blocks x - num_watermark_blocks x - n_blocks req8 > 0 \<and>
        isl (quotient (num_free_gpu_blocks x) (num_running_requests x))) \<and>
   (\<exists>i. first_argmax_in
          (\<lambda>x. num_free_gpu_blocks x - num_watermark_blocks x - n_blocks req8 > 0)
          (\<lambda>x. projr (quotient (num_free_gpu_blocks x) (num_running_requests x))) dst_infos_xy i \<and>
        get_dst_instance quotient dst_infos_xy ''x'' req8 =
          Inr (if instance_id (dst_infos_xy ! i) = ''x'' then None
               else Some (instance_id (dst_infos_xy ! i)))) \<and>
   get_dst_instance quotient dst_infos_xy ''x'' req8 = Inr (Some ''y'') \<and>
   get_dst_instance quotient [] ''x'' req8 = Inr None"
proof -
  have adm: "\<not> (\<forall>x \<in> set dst_infos_xy.
      \<not> num_free_gpu_blocks x - num_watermark_blocks x - n_blocks req8 > 0)"
    by (simp add: dst_infos_xy_def example_info_def req8_def)
  have ok: "\<not> (\<exists>x \<in> set dst_infos_xy.
        num_free_gpu_blocks x - num_watermark_blocks x - n_blocks req8 > 0 \<and>
        isl (quotient (num_free_gpu_blocks x) (num_running_requests x)))"
    by (simp add: quotient_def)
  have ev: "get_dst_instance quotient dst_infos_xy ''x'' req8 = Inr (Some ''y'')"
    by (simp add: get_dst_instance_def dst_infos_xy_def example_info_def
        req8_def py_sorted_raising_def py_sorted_def first_item_def quotient_def)
  from get_dst_instance_spec [of dst_infos_xy req8 quotient "''x''"]
  have 1: "\<exists>i. first_argmax_in
          (\<lambda>x. num_free_gpu_blocks x - num_watermark_blocks x - n_blocks req8 > 0)
          (\<lambda>x. projr (quotient (num_free_gpu_blocks x) (num_running_requests x))) dst_infos_xy i \<and>
        get_dst_instance quotient dst_infos_xy ''x'' req8 =
          Inr (if instance_id (dst_infos_xy ! i) = ''x'' then None
               else Some (instance_id (dst_infos_xy ! i)))"
    unfolding if_not_P [OF adm] if_not_P [OF ok] by (rule conjunct1)
  from get_dst_instance_spec [of "[]" req8 quotient "''x''"]
  have 3: "get_dst_instance quotient [] ''x'' req8 = Inr None" by simp
  from adm ok 1 ev 3 show ?thesis by blast
qed

text \<open>
  With the doubles that Python computes, two instances whose unrounded quotients are
  equal are ordered by their floats: \<open>y\<close> comes first in the list, and \<open>x\<close>, whose
  float is greater, is the destination.
\<close>

lemma get_dst_instance_rounded_example:
  "get_dst_instance rounded_2_200002 dst_infos_tie ''s'' req1 = Inr (Some ''x'') \<and>
   get_dst_instance quotient dst_infos_tie ''s'' req1 = Inr (Some ''y'')"
  by (simp add: get_dst_instance_def dst_infos_tie_def example_info_def req1_def
      py_sorted_raising_def py_sorted_def first_item_def rounded_2_200002_def quotient_def)


section \<open>Admissibility of the chosen destination\<close>

lemma min_key_from_in: "min_key_from key b xs \<in> set (b # xs)"
  by (induction xs arbitrary: b) (auto split: if_splits)

lemma py_min_key_in: "py_min_key key xs = Inr t \<Longrightarrow> t \<in> set xs"
  using min_key_from_in [of key] by (cases xs) (auto simp: py_min_key_def)

lemma map_sum_Some_eq: "map_sum id Some x = Inr (Some t) \<longleftrightarrow> x = Inr t"
  by (cases x) auto

lemma available_ids_keys: "set (available_ids c) \<subseteq> fst ` set c"
  by (auto simp: available_ids_def)

lemma available_ids_free:
  assumes "distinct (map fst c)" "i \<in> set (available_ids c)"
  shows "cand_free c i > 0"
proof -
  from assms(2) obtain f u where fu: "(i, f, u) \<in> set c" "f > 0"
    by (auto simp: available_ids_def)
  with assms(1) have "map_of c i = Some (f, u)" by simp
  with fu(2) show ?thesis by (simp add: cand_free_def)
qed

lemma urgency_dst_admissible:
  assumes "get_dst_instance ratio dsts src r = Inr (Some d)"
  shows "\<exists>x \<in> set dsts. instance_id x = d \<and>
           num_free_gpu_blocks x - num_watermark_blocks x - n_blocks r > 0"
proof -
  let ?P = "\<lambda>x. num_free_gpu_blocks x - num_watermark_blocks x - n_blocks r > 0"
  have adm: "\<not> (\<forall>x \<in> set dsts. \<not> ?P x)"
    using get_dst_instance_none [of dsts r ratio src] assms by auto
  have ok: "\<forall>x \<in> set dsts. ?P x \<longrightarrow>
      \<not> isl (ratio (num_free_gpu_blocks x) (num_running_requests x))"
    using get_dst_instance_raises [of _ dsts r ratio src] assms by fastforce
  from get_dst_instance_head [OF adm ok, of src] assms obtain i where
    i: "first_argmax_in ?P
          (\<lambda>x. projr (ratio (num_free_gpu_blocks x) (num_running_requests x))) dsts i"
       "instance_id (dsts ! i) = d"
    by (auto split: if_splits)
  then show ?thesis
    by (intro bexI [of _ "dsts ! i"]) (simp_all add: first_argmax_in_def)
qed

lemma choose_dst_cases:
  assumes "choose_dst avail c r = Inr (Some t)"
  shows "avail \<noteq> [] \<and> t \<in> set avail \<and>
     (let mx = Max (set (map (cand_used c) avail)) in
      (filtered_dst_instances_II mx avail c r \<noteq> [] \<and> mx - cand_used c t - n_blocks r > 0) \<or>
      (filtered_dst_instances_II mx avail c r = [] \<and> cand_free c t - n_blocks r > 0))"
proof -
  have ne: "avail \<noteq> []"
    using assms by (cases avail) (simp_all add: choose_dst_def py_max_def)
  let ?mx = "Max (set (map (cand_used c) avail))"
  have mx: "py_max (map (cand_used c) avail) = Inr ?mx"
    using ne by (intro py_max_nonempty) simp
  show ?thesis
  proof (cases "filtered_dst_instances_II ?mx avail c r = []")
    case True
    with assms mx have "t \<in> set (filtered_dst_instances avail c r)"
      by (auto simp: choose_dst_def map_sum_Some_eq split: if_splits dest: py_min_key_in)
    with True ne show ?thesis by (simp add: filtered_dst_instances_def Let_def)
  next
    case False
    with assms mx have "t \<in> set (filtered_dst_instances_II ?mx avail c r)"
      by (auto simp: choose_dst_def map_sum_Some_eq split: if_splits dest: py_min_key_in)
    with False ne show ?thesis by (simp add: filtered_dst_instances_II_def Let_def)
  qed
qed

lemma planner_overshoot_admissible:
  assumes "choose_dst avail c r = Inr (Some t)"
    and "filtered_dst_instances_II (Max (set (map (cand_used c) avail))) avail c r = []"
  shows "t \<in> set avail \<and> cand_free c t - n_blocks r > 0"
  using choose_dst_cases [OF assms(1)] assms(2) by (simp add: Let_def)

lemma planner_even_admissible:
  assumes d: "distinct (map fst c)"
    and cap: "\<forall>i \<in> set (available_ids c). cand_free c i + cand_used c i = C"
    and ch: "choose_dst (available_ids c) c r = Inr (Some t)"
  shows "cand_free c t - n_blocks r > 0"
proof -
  let ?av = "available_ids c"
  let ?mx = "Max (set (map (cand_used c) ?av))"
  from choose_dst_cases [OF ch] have ne: "?av \<noteq> []" and t: "t \<in> set ?av"
    and cases: "(?mx - cand_used c t - n_blocks r > 0) \<or> (cand_free c t - n_blocks r > 0)"
    by (auto simp: Let_def)
  from cases show ?thesis
  proof
    assume fr: "?mx - cand_used c t - n_blocks r > 0"
    have "?mx \<in> set (map (cand_used c) ?av)"
      using ne by (intro Max_in) simp_all
    then obtain m where m: "m \<in> set ?av" "cand_used c m = ?mx" by auto
    from available_ids_free [OF d m(1)] have "cand_free c m > 0" .
    moreover from cap m have "cand_free c m + ?mx = C" by auto
    moreover from cap t have "cand_free c t + cand_used c t = C" by auto
    ultimately show ?thesis using fr by linarith
  qed
qed

lemma loadv2_even_admissible:
  assumes ne: "infos \<noteq> []"
    and idle: "\<forall>x \<in> set infos. num_waiting_requests x = 0"
    and even: "\<forall>x \<in> set infos. num_total_gpu_blocks x = T \<and>
                 num_free_gpu_blocks x = T - num_used_gpu_blocks x \<and> num_used_gpu_blocks x \<le> T"
  shows "\<exists>x \<in> set infos. Loadv2_dispatch infos (Some n) = Inr (instance_id x) \<and>
     (n \<le> num_free_gpu_blocks x - num_watermark_blocks x \<or>
      ((\<forall>y \<in> set infos. loadv2_slack (Max (set (map num_used_gpu_blocks infos))) n y < 0) \<and>
       (\<forall>y \<in> set infos. num_free_gpu_blocks y - num_watermark_blocks y < n)))"
proof -
  let ?mx = "Max (set (map num_used_gpu_blocks infos))"
  have "?mx \<in> set (map num_used_gpu_blocks infos)"
    using ne by (intro Max_in) simp_all
  then obtain m where m: "m \<in> set infos" "num_used_gpu_blocks m = ?mx" by auto
  with even have mxT: "?mx \<le> T" by auto
  show ?thesis
  proof (cases "\<exists>x \<in> set infos. ?mx - num_watermark_blocks x - num_used_gpu_blocks x - n \<ge> 0")
    case True
    from Loadv2_idle_fit [OF ne idle True] obtain i where
      res: "Loadv2_dispatch infos (Some n) = Inr (instance_id (infos ! i))" and
      i: "i < length infos"
      "?mx - num_watermark_blocks (infos ! i) - num_used_gpu_blocks (infos ! i) - n \<ge> 0"
      by (auto simp: first_argmin_in_def)
    from i(1) have mem: "infos ! i \<in> set infos" by simp
    with even have "num_free_gpu_blocks (infos ! i) = T - num_used_gpu_blocks (infos ! i)" by auto
    with i(2) mxT have "n \<le> num_free_gpu_blocks (infos ! i) - num_watermark_blocks (infos ! i)"
      by linarith
    with res mem show ?thesis by blast
  next
    case False
    from Loadv2_idle_overshoot [OF ne idle False] obtain i where
      res: "Loadv2_dispatch infos (Some n) = Inr (instance_id (infos ! i))" and
      i: "i < length infos"
      "\<forall>j < length infos. num_used_gpu_blocks (infos ! i) + n + num_watermark_blocks (infos ! i) - ?mx
           \<le> num_used_gpu_blocks (infos ! j) + n + num_watermark_blocks (infos ! j) - ?mx"
      by (auto simp: first_argmin_in_def)
    from i(1) have mem: "infos ! i \<in> set infos" by simp
    have least: "num_free_gpu_blocks y - num_watermark_blocks y
          \<le> num_free_gpu_blocks (infos ! i) - num_watermark_blocks (infos ! i)"
      if "y \<in> set infos" for y
    proof -
      from that obtain j where j: "j < length infos" "infos ! j = y"
        by (auto simp: in_set_conv_nth)
      with i(2) have "num_used_gpu_blocks (infos ! i) + num_watermark_blocks (infos ! i)
           \<le> num_used_gpu_blocks y + num_watermark_blocks y" by fastforce
      moreover from even that mem have "num_free_gpu_blocks y = T - num_used_gpu_blocks y"
        "num_free_gpu_blocks (infos ! i) = T - num_used_gpu_blocks (infos ! i)" by auto
      ultimately show ?thesis by linarith
    qed
    show ?thesis
    proof (cases "n \<le> num_free_gpu_blocks (infos ! i) - num_watermark_blocks (infos ! i)")
      case True
      with res mem show ?thesis by blast
    next
      case inadm: False
      have "\<forall>y \<in> set infos. num_free_gpu_blocks y - num_watermark_blocks y < n"
        using least inadm by fastforce
      moreover have "\<forall>y \<in> set infos. loadv2_slack ?mx n y < 0"
        using False by (auto simp: loadv2_slack_def)
      ultimately show ?thesis using res mem by blast
    qed
  qed
qed


text \<open>
  Claim C1 (admissibility), as the code has it.
  (1) Every destination returned by \<open>Urgency.get_dst_instance\<close> has
  \<open>num_free_gpu_blocks - num_watermark_blocks - n_blocks > 0\<close>, whatever floats its sort
  key yields.
  (2) In \<open>derive_redispatching_plans\<close>, a destination chosen in the overshoot branch (no
  available id passes the frontier test \<open>max_used - used - n_blocks > 0\<close>) has
  \<open>free - n_blocks > 0\<close>.
  (3) When all available candidates of the planner have the same capacity
  \<open>free + used\<close>, every destination it chooses has \<open>free - n_blocks > 0\<close>.
  (4) When no instance has waiting requests and all instances have the same
  \<open>num_total_gpu_blocks\<close> with \<open>num_free_gpu_blocks = total - used \<ge> 0\<close>, the destination
  of \<open>Loadv2.dispatch\<close> has \<open>num_free_gpu_blocks - num_watermark_blocks \<ge> req_n_blocks\<close>,
  unless the overshoot branch was taken and no instance is admissible.
  \<open>Loadv2.dispatch\<close> never reads \<open>num_free_gpu_blocks\<close>: nothing is said about its
  overloaded branch, nor about instances of different sizes.
\<close>

theorem admissibility_amended:
  "(get_dst_instance ratio dsts src r = Inr (Some d) \<longrightarrow>
      (\<exists>x \<in> set dsts. instance_id x = d \<and>
         num_free_gpu_blocks x - num_watermark_blocks x - n_blocks r > 0)) \<and>
   (choose_dst avail c rq = Inr (Some t) \<and>
    filtered_dst_instances_II (Max (set (map (cand_used c) avail))) avail c rq = [] \<longrightarrow>
      t \<in> set avail \<and> cand_free c t - n_blocks rq > 0) \<and>
   (distinct (map fst c') \<and>
    (\<forall>i \<in> set (available_ids c'). cand_free c' i + cand_used c' i = C) \<and>
    choose_dst (available_ids c') c' rq' = Inr (Some t') \<longrightarrow>
      cand_free c' t' - n_blocks rq' > 0) \<and>
   (infos \<noteq> [] \<and> (\<forall>x \<in> set infos. num_waiting_requests x = 0) \<and>
    (\<forall>x \<in> set infos. num_total_gpu_blocks x = T \<and>
        num_free_gpu_blocks x = T - num_used_gpu_blocks x \<and> num_used_gpu_blocks x \<le> T) \<longrightarrow>
      (\<exists>x \<in> set infos. Loadv2_dispatch infos (Some n) = Inr (instance_id x) \<and>
         (n \<le> num_free_gpu_blocks x - num_watermark_blocks x \<or>
          ((\<forall>y \<in> set infos. loadv2_slack (Max (set (map num_used_gpu_blocks infos))) n y < 0) \<and>
           (\<forall>y \<in> set infos. num_free_gpu_blocks y - num_watermark_blocks y < n)))))"
proof (intro conjI impI)
  assume "get_dst_instance ratio dsts src r = Inr (Some d)"
  then show "\<exists>x \<in> set dsts. instance_id x = d \<and>
         num_free_gpu_blocks x - num_watermark_blocks x - n_blocks r > 0"
    by (rule urgency_dst_admissible)
next
  assume a: "choose_dst avail c rq = Inr (Some t) \<and>
    filtered_dst_instances_II (Max (set (map (cand_used c) avail))) avail c rq = []"
  from planner_overshoot_admissible [of avail c rq t] a
  show "t \<in> set avail" and "cand_free c t - n_blocks rq > 0" by simp_all
next
  assume "distinct (map fst c') \<and>
    (\<forall>i \<in> set (available_ids c'). cand_free c' i + cand_used c' i = C) \<and>
    choose_dst (available_ids c') c' rq' = Inr (Some t')"
  then show "cand_free c' t' - n_blocks rq' > 0"
    using planner_even_admissible [of c' C rq' t'] by blast
next
  assume "infos \<noteq> [] \<and> (\<forall>x \<in> set infos. num_waiting_requests x = 0) \<and>
    (\<forall>x \<in> set infos. num_total_gpu_blocks x = T \<and>
        num_free_gpu_blocks x = T - num_used_gpu_blocks x \<and> num_used_gpu_blocks x \<le> T)"
  then show "\<exists>x \<in> set infos. Loadv2_dispatch infos (Some n) = Inr (instance_id x) \<and>
         (n \<le> num_free_gpu_blocks x - num_watermark_blocks x \<or>
          ((\<forall>y \<in> set infos. loadv2_slack (Max (set (map num_used_gpu_blocks infos))) n y < 0) \<and>
           (\<forall>y \<in> set infos. num_free_gpu_blocks y - num_watermark_blocks y < n)))"
    using loadv2_even_admissible [of infos T n] by blast
qed

theorem admissibility_amended_witness:
  "get_dst_instance quotient dst_infos_xy ''x'' req8 = Inr (Some ''y'') \<and>
   (\<exists>x \<in> set dst_infos_xy. instance_id x = ''y'' \<and>
       num_free_gpu_blocks x - num_watermark_blocks x - n_blocks req8 > 0) \<and>
   choose_dst (available_ids even_cands) even_cands req35 = Inr (Some ''a'') \<and>
   filtered_dst_instances_II (Max (set (map (cand_used even_cands) (available_ids even_cands))))
     (available_ids even_cands) even_cands req35 = [] \<and>
   cand_free even_cands ''a'' - n_blocks req35 > 0 \<and>
   distinct (map fst even_cands) \<and>
   choose_dst (available_ids even_cands) even_cands req10 = Inr (Some ''a'') \<and>
   cand_free even_cands ''a'' - n_blocks req10 > 0 \<and>
   s2_infos \<noteq> [] \<and>
   (\<exists>x \<in> set s2_infos. Loadv2_dispatch s2_infos (Some 8) = Inr (instance_id x) \<and>
         (8 \<le> num_free_gpu_blocks x - num_watermark_blocks x \<or>
          ((\<forall>y \<in> set s2_infos. loadv2_slack (Max (set (map num_used_gpu_blocks s2_infos))) 8 y < 0) \<and>
           (\<forall>y \<in> set s2_infos. num_free_gpu_blocks y - num_watermark_blocks y < 8))))"
proof -
  have u: "get_dst_instance quotient dst_infos_xy ''x'' req8 = Inr (Some ''y'')"
    by (simp add: get_dst_instance_def dst_infos_xy_def example_info_def
        req8_def py_sorted_raising_def py_sorted_def first_item_def quotient_def)
  have p1: "choose_dst (available_ids even_cands) even_cands req35 = Inr (Some ''a'')"
    by (simp add: choose_dst_def available_ids_def even_cands_def req35_def cand_free_def
        cand_used_def filtered_dst_instances_def filtered_dst_instances_II_def py_min_key_def
        py_max_def)
  have p2: "filtered_dst_instances_II (Max (set (map (cand_used even_cands) (available_ids even_cands))))
     (available_ids even_cands) even_cands req35 = []"
    by (simp add: available_ids_def even_cands_def req35_def cand_used_def
        filtered_dst_instances_II_def)
  have q1: "distinct (map fst even_cands)" by (simp add: even_cands_def)
  have q2: "\<forall>i \<in> set (available_ids even_cands). cand_free even_cands i + cand_used even_cands i = 60"
    by (simp add: available_ids_def even_cands_def cand_free_def cand_used_def)
  have q3: "choose_dst (available_ids even_cands) even_cands req10 = Inr (Some ''a'')"
    by (simp add: choose_dst_def available_ids_def even_cands_def req10_def cand_free_def
        cand_used_def filtered_dst_instances_def filtered_dst_instances_II_def py_min_key_def
        py_max_def)
  have l1: "s2_infos \<noteq> []" by (simp add: s2_infos_def)
  have l2: "\<forall>x \<in> set s2_infos. num_waiting_requests x = 0"
    by (simp add: s2_infos_def example_info_def)
  have l3: "\<forall>x \<in> set s2_infos. num_total_gpu_blocks x = 100 \<and>
        num_free_gpu_blocks x = 100 - num_used_gpu_blocks x \<and> num_used_gpu_blocks x \<le> 100"
    by (simp add: s2_infos_def example_info_def)
  note inst = admissibility_amended [where ratio = quotient and dsts = dst_infos_xy
      and src = "''x''" and r = req8
      and d = "''y''" and avail = "available_ids even_cands" and c = even_cands and rq = req35
      and t = "''a''" and c' = even_cands and C = 60 and rq' = req10 and t' = "''a''"
      and infos = s2_infos and T = 100 and n = 8]
  from inst u p1 p2 q1 q2 q3 l1 l2 l3 show ?thesis by blast
qed


text \<open>
  The claim as stated fails. With waiting requests, \<open>Loadv2.dispatch\<close> returns the
  instance with most waiting requests although it has no room and another instance
  has; with instances of different sizes and nobody waiting, it returns an instance
  that passes the frontier test without room for the request; the planner does the
  same with candidates of different capacities, outside the overshoot branch.
\<close>

theorem admissibility_counterexample:
  "Loadv2_dispatch overloaded_infos (Some 8) = Inr (instance_id (overloaded_infos ! 0)) \<and>
   num_free_gpu_blocks (overloaded_infos ! 0) - num_watermark_blocks (overloaded_infos ! 0) < 8 \<and>
   num_waiting_requests (overloaded_infos ! 0) \<noteq> 0 \<and>
   8 \<le> num_free_gpu_blocks (overloaded_infos ! 1) - num_watermark_blocks (overloaded_infos ! 1) \<and>
   Loadv2_dispatch mixed_infos (Some 8) = Inr (instance_id (mixed_infos ! 1)) \<and>
   num_free_gpu_blocks (mixed_infos ! 1) - num_watermark_blocks (mixed_infos ! 1) < 8 \<and>
   0 \<le> loadv2_slack 40 8 (mixed_infos ! 1) \<and>
   8 \<le> num_free_gpu_blocks (mixed_infos ! 0) - num_watermark_blocks (mixed_infos ! 0) \<and>
   choose_dst (available_ids mixed_cands) mixed_cands req10 = Inr (Some ''a'') \<and>
   cand_free mixed_cands ''a'' - n_blocks req10 < 0 \<and>
   filtered_dst_instances_II 50 (available_ids mixed_cands) mixed_cands req10 \<noteq> [] \<and>
   cand_free mixed_cands ''b'' - n_blocks req10 > 0"
  by (simp add: Loadv2_dispatch_def overloaded_infos_def mixed_infos_def example_info_def
      py_max_def py_sorted_def first_item_def loadv2_slack_def loadv2_overshoot_def
      choose_dst_def available_ids_def mixed_cands_def req10_def cand_free_def cand_used_def
      filtered_dst_instances_def filtered_dst_instances_II_def py_min_key_def)

section \<open>Round-robin dispatch\<close>

lemma RoundRobin_dispatch_step:
  assumes "keys \<noteq> []"
  shows "RoundRobin_dispatch keys s =
     (Inr (sort keys ! nat ((prev_instance_idx s + 1) mod int (length keys))),
      s\<lparr>prev_instance_idx := (prev_instance_idx s + 1) mod int (length keys)\<rparr>)"
proof -
  from assms have "sort keys \<noteq> []" by (metis length_0_conv length_sort)
  then show ?thesis by (simp add: RoundRobin_dispatch_def Let_def)
qed

lemma RoundRobin_calls_from:
  assumes "keys \<noteq> []"
  shows "RoundRobin_calls keys K s =
     map (\<lambda>i. Inr (sort keys ! nat ((prev_instance_idx s + 1 + int i) mod int (length keys))))
       [0..<K]"
proof (induction K arbitrary: s)
  case 0
  then show ?case by simp
next
  case (Suc K)
  let ?N = "int (length keys)"
  let ?s' = "s\<lparr>prev_instance_idx := (prev_instance_idx s + 1) mod ?N\<rparr>"
  have shift: "((prev_instance_idx s + 1) mod ?N + 1 + int i) mod ?N
      = (prev_instance_idx s + 1 + int (Suc i)) mod ?N" for i
    using mod_add_left_eq [of "prev_instance_idx s + 1" ?N "1 + int i"]
    by (simp add: algebra_simps)
  have "RoundRobin_calls keys (Suc K) s =
      Inr (sort keys ! nat ((prev_instance_idx s + 1) mod ?N)) # RoundRobin_calls keys K ?s'"
    by (simp add: RoundRobin_dispatch_step [OF assms])
  also have "RoundRobin_calls keys K ?s' =
      map (\<lambda>i. Inr (sort keys ! nat ((prev_instance_idx s + 1 + int (Suc i)) mod ?N))) [0..<K]"
    by (simp add: Suc.IH shift del: of_nat_Suc)
  also have "Inr (sort keys ! nat ((prev_instance_idx s + 1) mod ?N)) # \<dots> =
      map (\<lambda>i. Inr (sort keys ! nat ((prev_instance_idx s + 1 + int i) mod ?N))) [0..<Suc K]"
    unfolding upt_conv_Cons [OF zero_less_Suc] map_Suc_upt [symmetric] by (simp add: comp_def)
  finally show ?case .
qed

lemma RoundRobin_calls_fresh:
  assumes "keys \<noteq> []"
  shows "RoundRobin_calls keys K RoundRobin_new =
     map (\<lambda>i. Inr (sort keys ! (i mod length keys))) [0..<K]"
proof -
  have "nat ((- 1 + 1 + int i) mod int (length keys)) = i mod length keys" for i
    by (simp add: nat_mod_distrib)
  then show ?thesis
    unfolding RoundRobin_calls_from [OF assms] by (simp add: RoundRobin_new_def)
qed

lemma cyclic_count:
  assumes "distinct s" "j < length s"
  shows "count_list (map (\<lambda>i. (Inr (s ! (i mod length s)) :: py_error + 'a)) [0..<K]) (Inr (s ! j))
     = K div length s + (if j < K mod length s then 1 else 0)"
proof (induction K)
  case 0
  then show ?case by simp
next
  case (Suc K)
  let ?N = "length s"
  have N: "0 < ?N" using assms(2) by linarith
  have eq: "(s ! (K mod ?N) = s ! j) = (K mod ?N = j)"
    using assms N by (simp add: nth_eq_iff_index_eq)
  have "K mod ?N < ?N" using N by simp
  then show ?case
    using Suc assms(2) eq by (auto simp: mod_Suc div_Suc)
qed

lemma nat_ceiling_div:
  assumes "0 < (N::nat)"
  shows "nat \<lceil>real K / real N\<rceil> = K div N + (if K mod N = 0 then 0 else 1)"
proof -
  let ?q = "K div N" and ?r = "K mod N"
  have K: "real K / real N = real ?q + real ?r / real N"
  proof -
    have "real K = real ?q * real N + real ?r"
      by (metis div_mult_mod_eq of_nat_add of_nat_mult)
    then show ?thesis using assms by (simp add: field_simps)
  qed
  show ?thesis
  proof (cases "?r = 0")
    case True
    then show ?thesis using K by simp
  next
    case False
    have "0 < real ?r / real N" using False assms by simp
    moreover have "real ?r / real N \<le> 1"
      using assms mod_less_divisor [of N K] by simp
    ultimately have "\<lceil>real K / real N\<rceil> = int ?q + 1"
      unfolding K by (intro ceiling_unique) simp_all
    then show ?thesis using False by simp
  qed
qed

text \<open>
  Claim C8 (round-robin fairness). On a fresh \<open>RoundRobin\<close> policy (cursor \<open>-1\<close>) and a
  fixed non-empty set of \<open>N\<close> keys, the \<open>i\<close>-th of \<open>K\<close> successive \<open>dispatch\<close> calls
  (counting from 0) returns the key at position \<open>i mod N\<close> of the lexicographically
  sorted keys, and every key is returned \<open>\<lfloor>K/N\<rfloor>\<close> or \<open>\<lceil>K/N\<rceil>\<close> times.
\<close>

theorem RoundRobin_fair:
  assumes "keys \<noteq> []" and "distinct keys"
  shows "RoundRobin_calls keys K RoundRobin_new =
           map (\<lambda>i. Inr (sort keys ! (i mod length keys))) [0..<K] \<and>
         (\<forall>k \<in> set keys.
            count_list (RoundRobin_calls keys K RoundRobin_new) (Inr k) = K div length keys \<or>
            count_list (RoundRobin_calls keys K RoundRobin_new) (Inr k)
              = nat \<lceil>real K / real (length keys)\<rceil>)"
proof (intro conjI ballI)
  show calls: "RoundRobin_calls keys K RoundRobin_new =
           map (\<lambda>i. Inr (sort keys ! (i mod length keys))) [0..<K]"
    by (rule RoundRobin_calls_fresh [OF assms(1)])
  fix k assume "k \<in> set keys"
  then have "k \<in> set (sort keys)" by simp
  then obtain j where j: "j < length (sort keys)" "sort keys ! j = k"
    by (metis in_set_conv_nth)
  let ?N = "length keys"
  have N: "0 < ?N" using assms(1) by simp
  have d: "distinct (sort keys)" using assms(2) by simp
  from cyclic_count [OF d j(1), of K] j(2)
  have cnt: "count_list (RoundRobin_calls keys K RoundRobin_new) (Inr k)
      = K div ?N + (if j < K mod ?N then 1 else 0)"
    unfolding calls by simp
  show "count_list (RoundRobin_calls keys K RoundRobin_new) (Inr k) = K div ?N \<or>
        count_list (RoundRobin_calls keys K RoundRobin_new) (Inr k) = nat \<lceil>real K / real ?N\<rceil>"
    unfolding cnt nat_ceiling_div [OF N] by auto
qed

theorem RoundRobin_fair_witness:
  "[''z'', ''x'', ''y''] \<noteq> [] \<and> distinct [''z'', ''x'', ''y''] \<and>
   RoundRobin_calls [''z'', ''x'', ''y''] 4 RoundRobin_new = [Inr ''x'', Inr ''y'', Inr ''z'', Inr ''x''] \<and>
   count_list (RoundRobin_calls [''z'', ''x'', ''y''] 4 RoundRobin_new) (Inr ''x'') = 2 \<and>
   count_list (RoundRobin_calls [''z'', ''x'', ''y''] 4 RoundRobin_new) (Inr ''y'') = 1 \<and>
   4 div length [''z'', ''x'', ''y''] = 1 \<and>
   nat \<lceil>real 4 / real (length [''z'', ''x'', ''y''])\<rceil> = 2"
proof -
  have ne: "[''z'', ''x'', ''y''] \<noteq> []" by simp
  have d: "distinct [''z'', ''x'', ''y'']" by simp
  have srt: "sort [''z'', ''x'', ''y''] = [''x'', ''y'', ''z'']" by simp
  have upt: "[0..<4] = [0, 1, 2, 3]" by (simp add: upt_rec)
  from RoundRobin_fair [OF ne d, of 4]
  have calls: "RoundRobin_calls [''z'', ''x'', ''y''] 4 RoundRobin_new =
      [Inr ''x'', Inr ''y'', Inr ''z'', Inr ''x'']"
    unfolding srt upt by simp
  have c: "nat \<lceil>real 4 / real (length [''z'', ''x'', ''y''])\<rceil> = 2"
    by (simp add: nat_ceiling_div)
  from ne d calls c show ?thesis by simp
qed


section \<open>GlobalScheduler: telemetry and membership\<close>

lemma update_instance_infos_Nil: "update_instance_infos [] s = s"
  by (simp add: update_instance_infos_def)

lemma update_instance_infos_Cons:
  "update_instance_infos (i # infos) s =
     update_instance_infos infos
       (if instance_id i |\<in>| instance_id_set s
        then s\<lparr>instance_info := (instance_info s)(instance_id i \<mapsto> i)\<rparr> else s)"
  by (simp add: update_instance_infos_def)

lemma update_instance_infos_fields:
  "instance_id_set (update_instance_infos infos s) = instance_id_set s \<and>
   num_instances (update_instance_infos infos s) = num_instances s \<and>
   schedulers (update_instance_infos infos s) = schedulers s"
  by (induction infos arbitrary: s)
     (simp_all add: update_instance_infos_Nil update_instance_infos_Cons)

lemma update_instance_infos_table:
  "k |\<notin>| instance_id_set s \<or> k \<notin> instance_id ` set infos \<Longrightarrow>
   instance_info (update_instance_infos infos s) k = instance_info s k"
proof (induction infos arbitrary: s)
  case Nil
  then show ?case by (simp add: update_instance_infos_Nil)
next
  case (Cons i infos)
  let ?s1 = "if instance_id i |\<in>| instance_id_set s
        then s\<lparr>instance_info := (instance_info s)(instance_id i \<mapsto> i)\<rparr> else s"
  have set1: "instance_id_set ?s1 = instance_id_set s" by simp
  from Cons.prems have "k |\<notin>| instance_id_set ?s1 \<or> k \<notin> instance_id ` set infos"
    unfolding set1 by auto
  from Cons.IH [OF this] have "instance_info (update_instance_infos (i # infos) s) k
      = instance_info ?s1 k"
    by (simp add: update_instance_infos_Cons)
  also have "\<dots> = instance_info s k"
    using Cons.prems by auto
  finally show ?case .
qed

lemma update_instance_infos_unknown:
  "\<forall>i \<in> set infos. instance_id i |\<notin>| instance_id_set s \<Longrightarrow> update_instance_infos infos s = s"
  by (induction infos arbitrary: s)
     (simp_all add: update_instance_infos_Nil update_instance_infos_Cons)

lemma update_instance_infos_filter:
  "update_instance_infos infos s =
     update_instance_infos (filter (\<lambda>i. instance_id i |\<in>| instance_id_set s) infos) s"
proof (induction infos arbitrary: s)
  case Nil
  then show ?case by simp
next
  case (Cons i infos)
  show ?case
  proof (cases "instance_id i |\<in>| instance_id_set s")
    case True
    let ?s1 = "s\<lparr>instance_info := (instance_info s)(instance_id i \<mapsto> i)\<rparr>"
    have "instance_id_set ?s1 = instance_id_set s" by simp
    with Cons.IH [of ?s1] True show ?thesis
      by (simp add: update_instance_infos_Cons)
  next
    case False
    with Cons.IH [of s] show ?thesis
      by (simp add: update_instance_infos_Cons)
  qed
qed

text \<open>
  Claim C9. \<open>update_instance_infos\<close> leaves \<open>instance_id_set\<close>, \<open>num_instances\<close> and the
  sub-schedulers as they are, and changes the table \<open>instance_info\<close> at most at keys
  that are in \<open>instance_id_set\<close> and are the id of a snapshot. When no snapshot's id is
  in \<open>instance_id_set\<close>, the whole scheduler state is unchanged; in general the
  result is that of the snapshots with a known id alone. The function has no error
  result: an unknown id is dropped silently.
\<close>

theorem update_instance_infos_frame:
  "instance_id_set (update_instance_infos infos s) = instance_id_set s \<and>
   num_instances (update_instance_infos infos s) = num_instances s \<and>
   schedulers (update_instance_infos infos s) = schedulers s \<and>
   (\<forall>k. k |\<notin>| instance_id_set s \<or> k \<notin> instance_id ` set infos \<longrightarrow>
        instance_info (update_instance_infos infos s) k = instance_info s k) \<and>
   ((\<forall>i \<in> set infos. instance_id i |\<notin>| instance_id_set s) \<longrightarrow>
        update_instance_infos infos s = s) \<and>
   update_instance_infos infos s =
     update_instance_infos (filter (\<lambda>i. instance_id i |\<in>| instance_id_set s) infos) s"
  using update_instance_infos_fields [of infos s] update_instance_infos_table [of _ s infos]
    update_instance_infos_unknown [of infos s] update_instance_infos_filter [of infos s]
  by blast

theorem update_instance_infos_frame_witness:
  "update_instance_infos [example_info ''b'' 100 50 5 0 0] sched_a = sched_a \<and>
   instance_info (update_instance_infos
       [example_info ''b'' 100 50 5 0 0, example_info ''a'' 100 30 5 0 0] sched_a) ''b'' = None \<and>
   instance_info (update_instance_infos
       [example_info ''b'' 100 50 5 0 0, example_info ''a'' 100 30 5 0 0] sched_a) ''a''
     = Some (example_info ''a'' 100 30 5 0 0) \<and>
   instance_id_set (update_instance_infos
       [example_info ''b'' 100 50 5 0 0, example_info ''a'' 100 30 5 0 0] sched_a) = {|''a''|}"
proof -
  have h1: "\<forall>i \<in> set [example_info ''b'' 100 50 5 0 0]. instance_id i |\<notin>| instance_id_set sched_a"
    by (simp add: example_info_def sched_a_def)
  have h2: "''b'' |\<notin>| instance_id_set sched_a" by (simp add: sched_a_def)
  have a: "instance_info (update_instance_infos
       [example_info ''b'' 100 50 5 0 0, example_info ''a'' 100 30 5 0 0] sched_a) ''a''
     = Some (example_info ''a'' 100 30 5 0 0)"
    by (simp add: update_instance_infos_def example_info_def sched_a_def)
  from update_instance_infos_frame [of "[example_info ''b'' 100 50 5 0 0]" sched_a] h1
  have 1: "update_instance_infos [example_info ''b'' 100 50 5 0 0] sched_a = sched_a" by blast
  from update_instance_infos_frame
      [of "[example_info ''b'' 100 50 5 0 0, example_info ''a'' 100 30 5 0 0]" sched_a] h2
  have 2: "instance_info (update_instance_infos
       [example_info ''b'' 100 50 5 0 0, example_info ''a'' 100 30 5 0 0] sched_a) ''b''
      = instance_info sched_a ''b''"
    and 3: "instance_id_set (update_instance_infos
       [example_info ''b'' 100 50 5 0 0, example_info ''a'' 100 30 5 0 0] sched_a)
      = instance_id_set sched_a" by blast+
  from 1 2 3 a show ?thesis by (simp add: sched_a_def)
qed


lemma zip_take_args: "zip ids args = zip (take (length args) ids) args"
  by (induction ids args rule: list_induct2') simp_all

lemma scale_up_one_known:
  "i |\<in>| instance_id_set s \<Longrightarrow> scale_up_one ge sa (i, a) s = s"
  by (simp add: scale_up_one_def)

lemma scale_up_one_new:
  assumes "i |\<notin>| instance_id_set s"
  shows "instance_id_set (scale_up_one ge sa (i, a) s) = finsert i (instance_id_set s)"
    and "num_instances (scale_up_one ge sa (i, a) s) = int (fcard (finsert i (instance_id_set s)))"
    and "instance_info (scale_up_one ge sa (i, a) s) =
           (instance_info s)(i \<mapsto> (ge (schedulers s))\<lparr>instance_id := i\<rparr>)"
  using assms by (simp_all add: scale_up_one_def add_instance_def Let_def)

lemma fold_scale_up_set:
  "instance_id_set (fold (scale_up_one ge sa) ps s) = instance_id_set s |\<union>| fset_of_list (map fst ps)"
proof (induction ps arbitrary: s)
  case Nil
  then show ?case by simp
next
  case (Cons p ps)
  obtain i a where p: "p = (i, a)" by (cases p)
  show ?case
  proof (cases "i |\<in>| instance_id_set s")
    case True
    then show ?thesis unfolding p by (auto simp: Cons.IH scale_up_one_known)
  next
    case False
    then show ?thesis unfolding p by (auto simp: Cons.IH scale_up_one_new(1))
  qed
qed

lemma fold_scale_up_table:
  "k \<notin> fst ` set ps \<Longrightarrow> instance_info (fold (scale_up_one ge sa) ps s) k = instance_info s k"
proof (induction ps arbitrary: s)
  case Nil
  then show ?case by simp
next
  case (Cons p ps)
  obtain i a where p: "p = (i, a)" by (cases p)
  from Cons.prems have k: "k \<noteq> i" "k \<notin> fst ` set ps" unfolding p by auto
  have "instance_info (scale_up_one ge sa (i, a) s) k = instance_info s k"
    using k(1) by (cases "i |\<in>| instance_id_set s")
      (simp_all add: scale_up_one_known scale_up_one_new(3))
  with Cons.IH [OF k(2)] show ?case unfolding p by simp
qed

lemma fold_scale_up_num:
  "num_instances (fold (scale_up_one ge sa) ps s) =
     (if fset_of_list (map fst ps) |\<subseteq>| instance_id_set s then num_instances s
      else int (fcard (instance_id_set (fold (scale_up_one ge sa) ps s))))"
proof (induction ps arbitrary: s)
  case Nil
  then show ?case by simp
next
  case (Cons p ps)
  obtain i a where p: "p = (i, a)" by (cases p)
  show ?case
  proof (cases "i |\<in>| instance_id_set s")
    case True
    then show ?thesis unfolding p using Cons.IH [of s] by (simp add: scale_up_one_known)
  next
    case False
    let ?s1 = "scale_up_one ge sa (i, a) s"
    have s1: "instance_id_set ?s1 = finsert i (instance_id_set s)"
      "num_instances ?s1 = int (fcard (instance_id_set ?s1))"
      using False by (simp_all add: scale_up_one_new)
    have "num_instances (fold (scale_up_one ge sa) ps ?s1)
        = int (fcard (instance_id_set (fold (scale_up_one ge sa) ps ?s1)))"
    proof (cases "fset_of_list (map fst ps) |\<subseteq>| instance_id_set ?s1")
      case True
      then have "instance_id_set (fold (scale_up_one ge sa) ps ?s1) = instance_id_set ?s1"
        unfolding fold_scale_up_set by auto
      with True Cons.IH [of ?s1] s1(2) show ?thesis by simp
    next
      case False
      with Cons.IH [of ?s1] show ?thesis by simp
    qed
    with False show ?thesis unfolding p by simp
  qed
qed

text \<open>
  Claim C10. \<open>scale_up\<close> with \<open>n\<close> ids and \<open>m < n\<close> instance\_args walks
  \<open>zip(instance_ids, instance_args)\<close>, so it does what it does on the first \<open>m\<close> ids
  alone. \<open>instance_id_set\<close> becomes the old set plus the first \<open>m\<close> ids; an id among
  the remaining \<open>n - m\<close> that is neither one of the first \<open>m\<close> nor known before is not
  in \<open>instance_id_set\<close> afterwards and its entry of \<open>instance_info\<close> is unchanged (no
  placeholder). The returned number is \<open>num_instances\<close>: the size of the new
  \<open>instance_id_set\<close> when some id was added, the old \<open>num_instances\<close> otherwise. No
  error is raised.
\<close>

theorem scale_up_short_args:
  assumes "length args < length ids"
  shows "scale_up ge sa (Several ids) args s = scale_up ge sa (Several (take (length args) ids)) args s \<and>
    (case scale_up ge sa (Several ids) args s of (n, s') \<Rightarrow>
       instance_id_set s' = instance_id_set s |\<union>| fset_of_list (take (length args) ids) \<and>
       (\<forall>k \<in> set (drop (length args) ids).
           k \<notin> set (take (length args) ids) \<and> k |\<notin>| instance_id_set s \<longrightarrow>
           k |\<notin>| instance_id_set s' \<and> instance_info s' k = instance_info s k) \<and>
       n = num_instances s' \<and>
       n = (if fset_of_list (take (length args) ids) |\<subseteq>| instance_id_set s then num_instances s
            else int (fcard (instance_id_set s'))))"
proof -
  let ?m = "length args"
  let ?ps = "zip ids args"
  let ?s' = "fold (scale_up_one ge sa) ?ps s"
  have keys: "map fst ?ps = take ?m ids"
    using assms by (simp add: map_fst_zip_take min_def)
  have 1: "scale_up ge sa (Several ids) args s = scale_up ge sa (Several (take ?m ids)) args s"
    using zip_take_args [of ids args] by (simp add: scale_up_def)
  have 2: "instance_id_set ?s' = instance_id_set s |\<union>| fset_of_list (take ?m ids)"
    using fold_scale_up_set [of ge sa ?ps s] by (simp add: keys)
  have 3: "k |\<notin>| instance_id_set ?s' \<and> instance_info ?s' k = instance_info s k"
    if "k \<notin> set (take ?m ids)" "k |\<notin>| instance_id_set s" for k
  proof -
    from that(1) have "k \<notin> fst ` set ?ps" using keys by (metis list.set_map)
    from fold_scale_up_table [OF this] that show ?thesis
      unfolding 2 by (simp add: fset_of_list.rep_eq)
  qed
  have 4: "num_instances ?s' =
      (if fset_of_list (take ?m ids) |\<subseteq>| instance_id_set s then num_instances s
       else int (fcard (instance_id_set ?s')))"
    using fold_scale_up_num [of ge sa ?ps s] by (simp add: keys)
  have res: "scale_up ge sa (Several ids) args s = (num_instances ?s', ?s')"
    by (simp add: scale_up_def Let_def)
  have "case (num_instances ?s', ?s') of (n, s') \<Rightarrow>
       instance_id_set s' = instance_id_set s |\<union>| fset_of_list (take ?m ids) \<and>
       (\<forall>k \<in> set (drop ?m ids).
           k \<notin> set (take ?m ids) \<and> k |\<notin>| instance_id_set s \<longrightarrow>
           k |\<notin>| instance_id_set s' \<and> instance_info s' k = instance_info s k) \<and>
       n = num_instances s' \<and>
       n = (if fset_of_list (take ?m ids) |\<subseteq>| instance_id_set s then num_instances s
            else int (fcard (instance_id_set s')))"
    using 2 3 4 by simp
  then have 5: "case scale_up ge sa (Several ids) args s of (n, s') \<Rightarrow>
       instance_id_set s' = instance_id_set s |\<union>| fset_of_list (take ?m ids) \<and>
       (\<forall>k \<in> set (drop ?m ids).
           k \<notin> set (take ?m ids) \<and> k |\<notin>| instance_id_set s \<longrightarrow>
           k |\<notin>| instance_id_set s' \<and> instance_info s' k = instance_info s k) \<and>
       n = num_instances s' \<and>
       n = (if fset_of_list (take ?m ids) |\<subseteq>| instance_id_set s then num_instances s
            else int (fcard (instance_id_set s')))"
    by (simp only: res)
  from 1 5 show ?thesis by (rule conjI)
qed

theorem scale_up_short_args_witness:
  "length [(), ()] < length [''a'', ''b'', ''c''] \<and>
   fst (scale_up empty_info no_sched_add (Several [''a'', ''b'', ''c'']) [(), ()] sched_a) = 2 \<and>
   instance_id_set (snd (scale_up empty_info no_sched_add (Several [''a'', ''b'', ''c'']) [(), ()] sched_a))
     = {|''a'', ''b''|} \<and>
   instance_info (snd (scale_up empty_info no_sched_add (Several [''a'', ''b'', ''c'']) [(), ()] sched_a)) ''c''
     = None"
proof -
  have h: "length [(), ()] < length [''a'', ''b'', ''c'']" by simp
  obtain n s' where r: "scale_up empty_info no_sched_add (Several [''a'', ''b'', ''c'']) [(), ()] sched_a = (n, s')"
    by (cases "scale_up empty_info no_sched_add (Several [''a'', ''b'', ''c'']) [(), ()] sched_a")
  from scale_up_short_args [OF h, of empty_info no_sched_add sched_a, unfolded r]
  have set: "instance_id_set s' = instance_id_set sched_a |\<union>| fset_of_list (take 2 [''a'', ''b'', ''c''])"
    and c: "\<forall>k \<in> set (drop 2 [''a'', ''b'', ''c'']).
           k \<notin> set (take 2 [''a'', ''b'', ''c'']) \<and> k |\<notin>| instance_id_set sched_a \<longrightarrow>
           k |\<notin>| instance_id_set s' \<and> instance_info s' k = instance_info sched_a k"
    and n: "n = (if fset_of_list (take 2 [''a'', ''b'', ''c'']) |\<subseteq>| instance_id_set sched_a
               then num_instances sched_a else int (fcard (instance_id_set s')))"
    by simp_all
  from set have set': "instance_id_set s' = {|''a'', ''b''|}"
    by (auto simp: sched_a_def)
  from c have c': "instance_info s' ''c'' = None" by (simp add: sched_a_def)
  from n have "n = 2" unfolding set' by (simp add: sched_a_def fcard_finsert_if)
  with h set' c' show ?thesis unfolding r by simp
qed


section \<open>The redispatch planner\<close>

text \<open>
  The planner's loop never fails: on entry of every iteration some instance is
  available, so \<open>max\<close> and \<open>min\<close> are taken over non-empty lists; and the ids it looks
  up are keys of \<open>candidate_instances\<close>.
\<close>

lemma py_min_key_total: "xs \<noteq> [] \<Longrightarrow> \<exists>t. py_min_key key xs = Inr t"
  by (cases xs) (simp_all add: py_min_key_def)

lemma choose_dst_total:
  assumes "avail \<noteq> []"
  shows "\<exists>t. choose_dst avail c r = Inr t"
proof -
  let ?mx = "Max (set (map (cand_used c) avail))"
  have mx: "py_max (map (cand_used c) avail) = Inr ?mx"
    using assms by (intro py_max_nonempty) simp
  show ?thesis
  proof (cases "filtered_dst_instances avail c r = []")
    case True
    with mx show ?thesis by (simp add: choose_dst_def)
  next
    case F: False
    show ?thesis
    proof (cases "filtered_dst_instances_II ?mx avail c r = []")
      case True
      from py_min_key_total [OF F] obtain t where
        "py_min_key (\<lambda>i. cand_used c i + n_blocks r - ?mx) (filtered_dst_instances avail c r) = Inr t"
        by blast
      with mx F True show ?thesis by (simp add: choose_dst_def)
    next
      case False
      from py_min_key_total [OF False] obtain t where
        "py_min_key (\<lambda>i. ?mx - (cand_used c i + n_blocks r))
           (filtered_dst_instances_II ?mx avail c r) = Inr t"
        by blast
      with mx F False show ?thesis by (simp add: choose_dst_def)
    qed
  qed
qed

lemma choose_dst_infeasible:
  assumes "avail \<noteq> []" "filtered_dst_instances avail c r = []"
  shows "choose_dst avail c r = Inr None"
proof -
  have "py_max (map (cand_used c) avail) = Inr (Max (set (map (cand_used c) avail)))"
    using assms(1) by (intro py_max_nonempty) simp
  with assms(2) show ?thesis by (simp add: choose_dst_def)
qed

lemma plan_iteration_total:
  assumes "available_instance_ids st \<noteq> []"
  shows "\<exists>e. plan_iteration m r st = Inr e"
proof -
  from choose_dst_total [OF assms] obtain t where
    "choose_dst (available_instance_ids st) (candidate_instances st) r = Inr t" by blast
  then show ?thesis
    by (cases t) (simp_all add: plan_iteration_def Let_def)
qed

lemma plan_iteration_Continue:
  assumes "plan_iteration m r st = Inr (Continue st')"
  shows "available_instance_ids st' \<noteq> []"
  using assms
  by (auto simp: plan_iteration_def Let_def split: sum.splits option.splits if_splits)

lemma plan_loop_total:
  "available_instance_ids st \<noteq> [] \<Longrightarrow> \<exists>st'. plan_loop m rs st = Inr st'"
proof (induction rs arbitrary: st)
  case Nil
  then show ?case by simp
next
  case (Cons r rs)
  from plan_iteration_total [OF Cons.prems] obtain e where e: "plan_iteration m r st = Inr e"
    by blast
  show ?case
  proof (cases e)
    case (Break st')
    with e show ?thesis by simp
  next
    case (Continue st')
    with e have "available_instance_ids st' \<noteq> []" by (simp add: plan_iteration_Continue)
    from Cons.IH [OF this] e Continue show ?thesis by simp
  qed
qed

lemma plan_iteration_avail:
  assumes "plan_iteration m r st = Inr e"
    and "available_instance_ids st = available_ids (candidate_instances st)"
  shows "available_instance_ids (state_of e) = available_ids (candidate_instances (state_of e))"
  using assms
  by (auto simp: plan_iteration_def Let_def split: sum.splits option.splits if_splits)

lemma choose_dst_key:
  assumes "choose_dst (available_ids c) c r = Inr (Some t)"
  shows "t \<in> fst ` set c"
  using choose_dst_cases [OF assms] available_ids_keys [of c] by auto

lemma map_of_cand_commit:
  "map_of (cand_commit c t n) i =
     map_option (\<lambda>(f, u). if i = t then (f - n, u + n) else (f, u)) (map_of c i)"
  by (induction c) (auto simp: cand_commit_def split: if_splits)

lemma capacity_cand_commit: "capacity (cand_commit c t n) i = capacity c i"
  by (cases "map_of c i") (auto simp: capacity_def map_of_cand_commit)

lemma plan_iteration_capacity:
  assumes "plan_iteration m r st = Inr e"
  shows "capacity (candidate_instances (state_of e)) i = capacity (candidate_instances st) i"
  using assms
  by (auto simp: plan_iteration_def Let_def capacity_cand_commit
      split: sum.splits option.splits if_splits)

lemma plan_loop_capacity:
  "plan_loop m rs st = Inr st' \<Longrightarrow>
   capacity (candidate_instances st') i = capacity (candidate_instances st) i"
proof (induction rs arbitrary: st)
  case Nil
  then show ?case by simp
next
  case (Cons r rs)
  from Cons.prems obtain e where e: "plan_iteration m r st = Inr e"
    by (auto split: sum.splits)
  note step = plan_iteration_capacity [OF e, of i]
  show ?case
  proof (cases e)
    case (Break st1)
    with e Cons.prems step show ?thesis by simp
  next
    case (Continue st1)
    with e Cons.prems have "plan_loop m rs st1 = Inr st'" by simp
    from Cons.IH [OF this] step Continue show ?thesis by simp
  qed
qed

text \<open>
  Claim C7 (planner conservation). One iteration of the planner's loop leaves
  \<open>candidates[id].free + candidates[id].used\<close> unchanged for every id, whichever way the
  iteration ends; and \<open>derive_redispatching_plans\<close> returns, with the same sum for
  every id in the candidates it leaves behind as in those it was given.
\<close>

theorem planner_conservation:
  "(\<forall>st r e i. plan_iteration m r st = Inr e \<longrightarrow>
       capacity (candidate_instances (state_of e)) i = capacity (candidate_instances st) i) \<and>
   (\<exists>plans c'. derive_redispatching_plans m reqs c = Inr (plans, c') \<and>
       (\<forall>i. capacity c' i = capacity c i))"
proof (intro conjI allI impI)
  fix st r e i
  assume "plan_iteration m r st = Inr e"
  then show "capacity (candidate_instances (state_of e)) i = capacity (candidate_instances st) i"
    by (rule plan_iteration_capacity)
next
  let ?init = "\<lparr>available_instance_ids = available_ids c, candidate_instances = c,
                 redispatch_plans = []\<rparr>"
  show "\<exists>plans c'. derive_redispatching_plans m reqs c = Inr (plans, c') \<and>
       (\<forall>i. capacity c' i = capacity c i)"
  proof (cases "available_ids c = []")
    case True
    then show ?thesis by (simp add: derive_redispatching_plans_def)
  next
    case False
    then have "available_instance_ids ?init \<noteq> []" by simp
    from plan_loop_total [OF this] obtain st' where st': "plan_loop m reqs ?init = Inr st'"
      by blast
    from plan_loop_capacity [OF st'] have "\<forall>i. capacity (candidate_instances st') i = capacity c i"
      by simp
    with False st' show ?thesis by (simp add: derive_redispatching_plans_def)
  qed
qed

lemmas planner_eval = plan_iteration_def choose_dst_def available_ids_def cand_free_def
  cand_used_def cand_commit_def plans_append_def filtered_dst_instances_def
  filtered_dst_instances_II_def py_max_def py_min_key_def

theorem planner_conservation_witness:
  "plan_iteration ''m'' r3 s6_after2 = Inr (Break s6_after2) \<and>
   plan_iteration ''m'' r1 s6_init =
     Inr (Continue \<lparr>available_instance_ids = [''a'', ''b''],
                     candidate_instances = [(''m'', 0, 50), (''a'', 20, 10), (''b'', 22, 13)],
                     redispatch_plans = [(''b'', [r1])]\<rparr>) \<and>
   capacity [(''m'', 0, 50), (''a'', 20, 10), (''b'', 22, 13)] ''b'' = Some 35 \<and>
   capacity s6_cands ''b'' = Some 35 \<and>
   (\<exists>plans c'. derive_redispatching_plans ''m'' [r1, r2, r3] s6_cands = Inr (plans, c') \<and>
       capacity c' ''a'' = Some 30 \<and> capacity c' ''b'' = Some 35 \<and> capacity c' ''m'' = Some 50)"
proof -
  have it3: "plan_iteration ''m'' r3 s6_after2 = Inr (Break s6_after2)"
    by (simp add: planner_eval s6_after2_def r3_def)
  have it1: "plan_iteration ''m'' r1 s6_init =
     Inr (Continue \<lparr>available_instance_ids = [''a'', ''b''],
                     candidate_instances = [(''m'', 0, 50), (''a'', 20, 10), (''b'', 22, 13)],
                     redispatch_plans = [(''b'', [r1])]\<rparr>)"
    by (simp add: planner_eval s6_init_def s6_cands_def r1_def)
  have caps: "capacity s6_cands ''a'' = Some 30" "capacity s6_cands ''b'' = Some 35"
    "capacity s6_cands ''m'' = Some 50"
    by (simp_all add: capacity_def s6_cands_def)
  note inst = planner_conservation [of "''m''" "[r1, r2, r3]" s6_cands]
  from inst it1 have "capacity [(''m'', 0, 50), (''a'', 20, 10), (''b'', 22, 13)] ''b''
      = capacity (candidate_instances s6_init) ''b''"
    by (metis plan_state.select_convs(2) state_of.simps(2))
  then have c1: "capacity [(''m'', 0, 50), (''a'', 20, 10), (''b'', 22, 13)] ''b'' = Some 35"
    by (simp add: s6_init_def caps)
  from inst have "\<exists>plans c'. derive_redispatching_plans ''m'' [r1, r2, r3] s6_cands = Inr (plans, c') \<and>
       capacity c' ''a'' = Some 30 \<and> capacity c' ''b'' = Some 35 \<and> capacity c' ''m'' = Some 50"
    unfolding caps [symmetric] by blast
  with it3 it1 c1 caps show ?thesis by simp
qed


lemma plan_prefix_loop:
  "plan_prefix m pre st = Some st1 \<Longrightarrow> plan_loop m (pre @ rest) st = plan_loop m rest st1"
proof (induction pre arbitrary: st)
  case Nil
  then show ?case by simp
next
  case (Cons r pre)
  from Cons.prems obtain st' where st': "plan_iteration m r st = Inr (Continue st')"
    "plan_prefix m pre st' = Some st1"
    by (auto split: sum.splits loop_exit.splits)
  from Cons.IH [OF st'(2)] st'(1) show ?case by simp
qed

lemma plan_prefix_avail:
  "plan_prefix m pre st = Some st1 \<Longrightarrow> available_instance_ids st \<noteq> [] \<Longrightarrow>
   available_instance_ids st1 \<noteq> []"
proof (induction pre arbitrary: st)
  case Nil
  then show ?case by simp
next
  case (Cons r pre)
  from Cons.prems(1) obtain st' where st': "plan_iteration m r st = Inr (Continue st')"
    "plan_prefix m pre st' = Some st1"
    by (auto split: sum.splits loop_exit.splits)
  from Cons.IH [OF st'(2) plan_iteration_Continue [OF st'(1)]] show ?case .
qed

lemma plan_iteration_infeasible:
  assumes "available_instance_ids st \<noteq> []"
    and "filtered_dst_instances (available_instance_ids st) (candidate_instances st) r = []"
  shows "plan_iteration m r st = Inr (Break st)"
  using choose_dst_infeasible [OF assms] by (simp add: plan_iteration_def)

text \<open>
  Claim C5. If the planner's loop reaches a request \<open>r\<close> (after the requests \<open>pre\<close>) in
  a state where no available candidate has \<open>free - r.n_blocks > 0\<close>, the loop ends
  there: whatever requests follow \<open>r\<close>, \<open>derive_redispatching_plans\<close> returns the plans
  accumulated before \<open>r\<close>, each destination with the set of the ids of the requests
  placed on it, and leaves the candidate counters as they were on reaching \<open>r\<close>. It is
  the result of planning \<open>pre\<close> alone.
\<close>

theorem planner_abort:
  assumes "available_ids c \<noteq> []"
    and "plan_prefix m pre \<lparr>available_instance_ids = available_ids c, candidate_instances = c,
                            redispatch_plans = []\<rparr> = Some st"
    and "\<forall>i \<in> set (available_instance_ids st).
           \<not> cand_free (candidate_instances st) i - n_blocks r > 0"
  shows "derive_redispatching_plans m (pre @ r # rest) c =
           Inr (map (\<lambda>(dst, rs). (dst, post_process rs)) (redispatch_plans st),
                candidate_instances st) \<and>
         derive_redispatching_plans m (pre @ r # rest) c = derive_redispatching_plans m pre c"
proof -
  let ?init = "\<lparr>available_instance_ids = available_ids c, candidate_instances = c,
                 redispatch_plans = []\<rparr>"
  from assms(1) have "available_instance_ids ?init \<noteq> []" by simp
  from plan_prefix_avail [OF assms(2) this] have av: "available_instance_ids st \<noteq> []" .
  from assms(3) have none:
    "filtered_dst_instances (available_instance_ids st) (candidate_instances st) r = []"
    by (simp add: filtered_dst_instances_def filter_empty_conv)
  have "plan_loop m (pre @ r # rest) ?init = plan_loop m (r # rest) st"
    by (rule plan_prefix_loop [OF assms(2)])
  also have "\<dots> = Inr st"
    by (simp add: plan_iteration_infeasible [OF av none])
  finally have 1: "plan_loop m (pre @ r # rest) ?init = Inr st" .
  have 2: "plan_loop m pre ?init = Inr st"
    using plan_prefix_loop [OF assms(2), of "[]"] by simp
  from 1 2 assms(1) show ?thesis by (simp add: derive_redispatching_plans_def)
qed


theorem planner_abort_witness:
  "available_ids s6_cands \<noteq> [] \<and>
   plan_prefix ''m'' [r1, r2] s6_init = Some s6_after2 \<and>
   filtered_dst_instances (available_instance_ids s6_after2) (candidate_instances s6_after2) r3 = [] \<and>
   derive_redispatching_plans ''m'' [r1, r2, r3, r1] s6_cands =
     Inr ([(''b'', {''r1''}), (''a'', {''r2''})],
          [(''m'', 0, 50), (''a'', 12, 18), (''b'', 22, 13)])"
proof -
  have h1: "available_ids s6_cands \<noteq> []"
    by (simp add: available_ids_def s6_cands_def)
  have h2: "plan_prefix ''m'' [r1, r2] \<lparr>available_instance_ids = available_ids s6_cands,
      candidate_instances = s6_cands, redispatch_plans = []\<rparr> = Some s6_after2"
    by (simp add: planner_eval s6_cands_def s6_after2_def r1_def r2_def)
  have h3: "\<forall>i \<in> set (available_instance_ids s6_after2).
      \<not> cand_free (candidate_instances s6_after2) i - n_blocks r3 > 0"
    by (simp add: cand_free_def s6_after2_def r3_def)
  have f3: "filtered_dst_instances (available_instance_ids s6_after2)
      (candidate_instances s6_after2) r3 = []"
    by (simp add: filtered_dst_instances_def cand_free_def s6_after2_def r3_def)
  from planner_abort [OF h1 h2 h3, of "[r1]"]
  have "derive_redispatching_plans ''m'' [r1, r2, r3, r1] s6_cands =
     Inr ([(''b'', {''r1''}), (''a'', {''r2''})],
          [(''m'', 0, 50), (''a'', 12, 18), (''b'', 22, 13)])"
    by (simp add: s6_after2_def post_process_def r1_def r2_def)
  with h1 h2 f3 show ?thesis by (simp add: s6_init_def)
qed

end
